theory Spec2Isabelle
  imports Main "HOL-Library.Sublist"
begin

section \<open>Python strings\<close>

text \<open>
  A Python \<open>str\<close> is a sequence of Unicode code points, so a string is modelled as a list
  of natural numbers, one per code point. \<open>len\<close> is \<open>length\<close>, concatenation is \<open>@\<close>.
  String literals of the source are written \<open>py ''...''\<close>.
\<close>

type_synonym pystr = "nat list"

definition py :: "string \<Rightarrow> pystr" where
  "py s = map of_char s"

text \<open>\<open>s.startswith(p)\<close> and \<open>s.endswith(p)\<close>.\<close>

fun startswith :: "pystr \<Rightarrow> pystr \<Rightarrow> bool" where
  "startswith s [] = True"
| "startswith [] (p # ps) = False"
| "startswith (c # s) (p # ps) = (c = p \<and> startswith s ps)"

definition endswith :: "pystr \<Rightarrow> pystr \<Rightarrow> bool" where
  "endswith s p = startswith (rev s) (rev p)"

text \<open>\<open>sub in s\<close>: some position of \<open>s\<close> starts an occurrence of \<open>sub\<close>.\<close>

fun contains :: "pystr \<Rightarrow> pystr \<Rightarrow> bool" where
  "contains sub [] = (sub = [])"
| "contains sub (c # s) = (startswith (c # s) sub \<or> contains sub s)"

text \<open>\<open>s.split(sep)[0]\<close> for a non-empty separator: the text before the first occurrence
  of \<open>sep\<close> (all of \<open>s\<close> when there is none).\<close>

fun split_first :: "pystr \<Rightarrow> pystr \<Rightarrow> pystr" where
  "split_first [] sep = []"
| "split_first (c # s) sep = (if startswith (c # s) sep then [] else c # split_first s sep)"

text \<open>\<open>s.split(c)[-1]\<close> for a one-character separator: the text after the last \<open>c\<close>.\<close>

definition split_last :: "pystr \<Rightarrow> nat \<Rightarrow> pystr" where
  "split_last s c = rev (takeWhile (\<lambda>x. x \<noteq> c) (rev s))"

text \<open>\<open>s.replace(old, new)\<close>: every occurrence of \<open>old\<close>, found from left to right without
  overlap, becomes \<open>new\<close>. With an empty \<open>old\<close> Python puts \<open>new\<close> around every character.\<close>

fun replace_scan :: "pystr \<Rightarrow> pystr \<Rightarrow> pystr \<Rightarrow> pystr" where
  "replace_scan [] old new = []"
| "replace_scan (c # s) old new =
     (if old \<noteq> [] \<and> startswith (c # s) old
      then new @ replace_scan (drop (length old) (c # s)) old new
      else c # replace_scan s old new)"

definition py_replace :: "pystr \<Rightarrow> pystr \<Rightarrow> pystr \<Rightarrow> pystr" where
  "py_replace s old new =
     (if old = [] then new @ concat (map (\<lambda>c. c # new) s) else replace_scan s old new)"

text \<open>\<open>str.isspace\<close> for one code point, as CPython's \<open>_PyUnicode_IsWhitespace\<close> has it:
  the ASCII controls 9 to 13 and 28 to 31, the space, NEL, NBSP and the Unicode spaces.
  \<open>str.strip()\<close>, \<open>str.split()\<close> and the regular expression class \<open>\s\<close> all use it.\<close>

definition isspace :: "nat \<Rightarrow> bool" where
  "isspace c = ((9 \<le> c \<and> c \<le> 13) \<or> (28 \<le> c \<and> c \<le> 32) \<or> c = 133 \<or> c = 160 \<or> c = 5760
     \<or> (8192 \<le> c \<and> c \<le> 8202) \<or> c = 8232 \<or> c = 8233 \<or> c = 8239 \<or> c = 8287 \<or> c = 12288)"

definition strip :: "pystr \<Rightarrow> pystr" where
  "strip s = rev (dropWhile isspace (rev (dropWhile isspace s)))"

text \<open>The decimal digits of Unicode (general category Nd): every block is ten consecutive
  code points for the digits 0 to 9. \<open>decimal_zeros\<close> lists the code point of each block's
  zero (Unicode 15, as in CPython 3.12 and 3.13). The class \<open>\d\<close> and \<open>int()\<close> use them.\<close>

definition decimal_zeros :: "nat list" where
  "decimal_zeros =
    [0x30, 0x660, 0x6F0, 0x7C0, 0x966, 0x9E6, 0xA66, 0xAE6, 0xB66, 0xBE6, 0xC66, 0xCE6,
     0xD66, 0xDE6, 0xE50, 0xED0, 0xF20, 0x1040, 0x1090, 0x17E0, 0x1810, 0x1946, 0x19D0,
     0x1A80, 0x1A90, 0x1B50, 0x1BB0, 0x1C40, 0x1C50, 0xA620, 0xA8D0, 0xA900, 0xA9D0,
     0xA9F0, 0xAA50, 0xABF0, 0xFF10, 0x104A0, 0x10D30, 0x11066, 0x110F0, 0x11136,
     0x111D0, 0x112F0, 0x11450, 0x114D0, 0x11650, 0x116C0, 0x11730, 0x118E0, 0x11950,
     0x11C50, 0x11D50, 0x11DA0, 0x11F50, 0x16A60, 0x16AC0, 0x16B50, 0x1D7CE, 0x1D7D8,
     0x1D7E2, 0x1D7EC, 0x1D7F6, 0x1E140, 0x1E2F0, 0x1E4F0, 0x1E950, 0x1FBF0]"

fun decimal_in :: "nat list \<Rightarrow> nat \<Rightarrow> nat option" where
  "decimal_in [] c = None"
| "decimal_in (z # zs) c = (if z \<le> c \<and> c < z + 10 then Some (c - z) else decimal_in zs c)"

definition decimal_value :: "nat \<Rightarrow> nat option" where
  "decimal_value c = decimal_in decimal_zeros c"

definition isdecimal :: "nat \<Rightarrow> bool" where
  "isdecimal c = (decimal_value c \<noteq> None)"

text \<open>\<open>int(s)\<close> on a non-empty run of decimal digits.\<close>

fun int_digits :: "nat \<Rightarrow> pystr \<Rightarrow> nat" where
  "int_digits acc [] = acc"
| "int_digits acc (c # s) =
     int_digits (10 * acc + (case decimal_value c of Some d \<Rightarrow> d | None \<Rightarrow> 0)) s"


section \<open>Regular expressions\<close>

text \<open>
  The patterns of the program are sequences of single characters, character classes with
  the greedy repetitions \<open>*\<close>, \<open>+\<close> and \<open>?\<close>, the anchors \<open>^\<close> and \<open>$\<close> and at most one
  group. \<open>rmatch\<close> is the backtracking matcher of Python's \<open>re\<close> on such a pattern: it
  matches at the current position, a repetition takes as many characters as it can and
  gives them back one at a time when the rest of the pattern fails. Its arguments are the
  pattern, whether the position is the start of the text, the text at the opening of the
  group, the group captured so far, and the text from the current position. It returns
  the text after the match and the captured group.
\<close>

datatype atom =
    One "nat \<Rightarrow> bool"
  | Star "nat \<Rightarrow> bool"
  | Plus "nat \<Rightarrow> bool"
  | Opt "nat \<Rightarrow> bool"
  | Bol
  | Eol
  | GOpen
  | GClose

fun rmatch :: "atom list \<Rightarrow> bool \<Rightarrow> pystr \<Rightarrow> pystr option \<Rightarrow> pystr
    \<Rightarrow> (pystr \<times> pystr option) option" where
  "rmatch [] b gs g s = Some (s, g)"
| "rmatch (One p # r) b gs g [] = None"
| "rmatch (One p # r) b gs g (c # s) = (if p c then rmatch r False gs g s else None)"
| "rmatch (Star p # r) b gs g [] = rmatch r b gs g []"
| "rmatch (Star p # r) b gs g (c # s) =
     (if p c then (case rmatch (Star p # r) False gs g s of
                     Some m \<Rightarrow> Some m
                   | None \<Rightarrow> rmatch r b gs g (c # s))
      else rmatch r b gs g (c # s))"
| "rmatch (Plus p # r) b gs g [] = None"
| "rmatch (Plus p # r) b gs g (c # s) =
     (if p c then rmatch (Star p # r) False gs g s else None)"
| "rmatch (Opt p # r) b gs g [] = rmatch r b gs g []"
| "rmatch (Opt p # r) b gs g (c # s) =
     (if p c then (case rmatch r False gs g s of
                     Some m \<Rightarrow> Some m
                   | None \<Rightarrow> rmatch r b gs g (c # s))
      else rmatch r b gs g (c # s))"
| "rmatch (Bol # r) b gs g s = (if b then rmatch r b gs g s else None)"
| "rmatch (Eol # r) b gs g s = (if s = [] \<or> s = [10] then rmatch r b gs g s else None)"
| "rmatch (GOpen # r) b gs g s = rmatch r b s g s"
| "rmatch (GClose # r) b gs g s =
     rmatch r b gs (Some (take (length gs - length s) gs)) s"

text \<open>A literal piece of a pattern, and the classes \<open>.\<close> (no newline), \<open>[^...]\<close> and \<open>[...]\<close>.\<close>

definition lit :: "string \<Rightarrow> atom list" where
  "lit s = map (\<lambda>c. One (\<lambda>x. x = of_char c)) s"

definition dot :: "nat \<Rightarrow> bool" where
  "dot c = (c \<noteq> 10)"

definition none_of :: "nat list \<Rightarrow> nat \<Rightarrow> bool" where
  "none_of cs c = (c \<notin> set cs)"

definition one_of :: "nat list \<Rightarrow> nat \<Rightarrow> bool" where
  "one_of cs c = (c \<in> set cs)"

text \<open>\<open>re.search(pattern, s)\<close>: the match at the leftmost position that has one.\<close>

fun re_search :: "atom list \<Rightarrow> bool \<Rightarrow> pystr \<Rightarrow> (pystr \<times> pystr option) option" where
  "re_search re b [] = rmatch re b [] None []"
| "re_search re b (c # s) =
     (case rmatch re b (c # s) None (c # s) of
        Some m \<Rightarrow> Some m
      | None \<Rightarrow> re_search re False s)"

text \<open>\<open>re.sub(pattern, '', s)\<close>: every match, found from left to right without overlap, is
  deleted. A match of the empty string deletes nothing; no pattern of the program has one.\<close>

fun re_sub :: "atom list \<Rightarrow> bool \<Rightarrow> pystr \<Rightarrow> pystr" where
  "re_sub re b s =
     (case rmatch re b s None s of
        Some (rest, g) \<Rightarrow>
          if length rest < length s then re_sub re False rest
          else (case s of [] \<Rightarrow> [] | c # s' \<Rightarrow> c # re_sub re False s')
      | None \<Rightarrow> (case s of [] \<Rightarrow> [] | c # s' \<Rightarrow> c # re_sub re False s'))"

text \<open>\<open>re.findall(pattern, s)\<close> for a pattern with one group: the group of every match,
  found from left to right without overlap.\<close>

fun re_findall :: "atom list \<Rightarrow> bool \<Rightarrow> pystr \<Rightarrow> pystr list" where
  "re_findall re b s =
     (case rmatch re b s None s of
        Some (rest, g) \<Rightarrow>
          if length rest < length s
          then (case g of Some x \<Rightarrow> x | None \<Rightarrow> []) # re_findall re False rest
          else (case s of [] \<Rightarrow> [] | c # s' \<Rightarrow> re_findall re False s')
      | None \<Rightarrow> (case s of [] \<Rightarrow> [] | c # s' \<Rightarrow> re_findall re False s'))"

declare re_sub.simps [simp del]
declare re_findall.simps [simp del]


section \<open>Percent-decoding: \<open>urllib.parse.unquote\<close>\<close>

text \<open>
  \<open>unquote(s)\<close> of the standard library, with its defaults \<open>encoding='utf-8'\<close> and
  \<open>errors='replace'\<close>. A string without \<open>%\<close> is returned as it is. Otherwise every
  maximal run of ASCII characters is percent-decoded to bytes (\<open>%XX\<close> with two
  hexadecimal digits is one byte, any other \<open>%\<close> stays) and the bytes are decoded as
  UTF-8; the characters outside ASCII stay as they are. It never raises on a \<open>str\<close>.
\<close>

definition hexval :: "nat \<Rightarrow> nat option" where
  "hexval c =
     (if 48 \<le> c \<and> c \<le> 57 then Some (c - 48)
      else if 65 \<le> c \<and> c \<le> 70 then Some (c - 55)
      else if 97 \<le> c \<and> c \<le> 102 then Some (c - 87)
      else None)"

fun unquote_to_bytes :: "pystr \<Rightarrow> nat list" where
  "unquote_to_bytes [] = []"
| "unquote_to_bytes (c # s) =
     (if c = 37 then
        (case s of
           h1 # h2 # s' \<Rightarrow>
             (case (hexval h1, hexval h2) of
                (Some a, Some b) \<Rightarrow> (16 * a + b) # unquote_to_bytes s'
              | _ \<Rightarrow> 37 # unquote_to_bytes s)
         | _ \<Rightarrow> 37 # unquote_to_bytes s)
      else c # unquote_to_bytes s)"

text \<open>\<open>bytes.decode('utf-8', 'replace')\<close>: a byte that cannot start a character, and the
  longest valid beginning of a character that is cut short, each become one U+FFFD
  (65533); decoding goes on at the byte that broke the character.\<close>

definition cont :: "nat \<Rightarrow> bool" where
  "cont b = (128 \<le> b \<and> b < 192)"

fun utf8_decode :: "nat list \<Rightarrow> pystr" where
  "utf8_decode [] = []"
| "utf8_decode (b # bs) =
     (if b < 128 then b # utf8_decode bs
      else if b < 194 then 65533 # utf8_decode bs
      else if b < 224 then
        (case bs of
           [] \<Rightarrow> [65533]
         | b2 # r \<Rightarrow>
             if cont b2 then ((b - 192) * 64 + (b2 - 128)) # utf8_decode r
             else 65533 # utf8_decode bs)
      else if b < 240 then
        (case bs of
           [] \<Rightarrow> [65533]
         | b2 # r \<Rightarrow>
             if \<not> cont b2 \<or> (if b2 < 160 then b = 224 else b = 237)
             then 65533 # utf8_decode bs
             else (case r of
                     [] \<Rightarrow> [65533]
                   | b3 # r' \<Rightarrow>
                       if cont b3
                       then ((b - 224) * 4096 + (b2 - 128) * 64 + (b3 - 128)) # utf8_decode r'
                       else 65533 # utf8_decode r))
      else if b < 245 then
        (case bs of
           [] \<Rightarrow> [65533]
         | b2 # r \<Rightarrow>
             if \<not> cont b2 \<or> (if b2 < 144 then b = 240 else b = 244)
             then 65533 # utf8_decode bs
             else (case r of
                     [] \<Rightarrow> [65533]
                   | b3 # r' \<Rightarrow>
                       if \<not> cont b3 then 65533 # utf8_decode r
                       else (case r' of
                               [] \<Rightarrow> [65533]
                             | b4 # r'' \<Rightarrow>
                                 if cont b4
                                 then ((b - 240) * 262144 + (b2 - 128) * 4096
                                       + (b3 - 128) * 64 + (b4 - 128)) # utf8_decode r''
                                 else 65533 # utf8_decode r')))
      else 65533 # utf8_decode bs)"

text \<open>The runs of ASCII characters are decoded, the rest is kept.\<close>

function unquote_runs :: "pystr \<Rightarrow> pystr" where
  "unquote_runs [] = []"
| "unquote_runs (c # s) =
     (if c < 128
      then utf8_decode (unquote_to_bytes (c # takeWhile (\<lambda>x. x < 128) s))
           @ unquote_runs (dropWhile (\<lambda>x. x < 128) s)
      else c # unquote_runs s)"
  by pat_completeness auto
termination
  by (relation "measure length") (auto simp: length_dropWhile_le less_Suc_eq_le)

definition unquote :: "pystr \<Rightarrow> pystr" where
  "unquote s = (if 37 \<notin> set s then s else unquote_runs s)"


section \<open>TopAnimeStrm: the name normalizer\<close>

text \<open>The pattern \<^verbatim>\<open><[^>]+>\<close> of an HTML tag.\<close>

definition tag_re :: "atom list" where
  "tag_re = lit ''<'' @ [Plus (none_of (py ''>''))] @ lit ''>''"

text \<open>\<open>_clean_filename\<close>: cut at \<open>?a=view\<close>, percent-decode, delete the HTML tags, keep
  the last path segment, strip the white space and make the name end in \<open>.mp4\<close>. The
  \<open>try\<close> around \<open>unquote\<close> never catches anything, since \<open>unquote\<close> does not raise.\<close>

definition clean_filename :: "pystr \<Rightarrow> pystr" where
  "clean_filename filename =
     (if filename = [] then []
      else
        let f1 = (if contains (py ''?a=view'') filename
                  then split_first filename (py ''?a=view'') else filename);
            f2 = unquote f1;
            f3 = re_sub tag_re True f2;
            f4 = (if contains (py ''/'') f3 then split_last f3 47 else f3);
            f5 = strip f4
        in if \<not> endswith f5 (py ''.mp4'') then f5 @ py ''.mp4'' else f5)"


section \<open>TopAnimeStrm: the URL normalizer for feed links\<close>

definition is_url_format_valid :: "pystr \<Rightarrow> bool" where
  "is_url_format_valid url = endswith url (py ''.mp4?d=true'')"

definition convert_url_format :: "pystr \<Rightarrow> pystr" where
  "convert_url_format url =
     (if contains (py ''?d=mp4'') url then py_replace url (py ''?d=mp4'') (py ''.mp4?d=true'')
      else if endswith url (py ''.mp4'') then url @ py ''?d=true''
      else url @ py ''.mp4?d=true'')"

text \<open>The branch of \<open>__touch_strm_file\<close> for a link that came from the feed.\<close>

definition feed_src_url :: "pystr \<Rightarrow> pystr" where
  "feed_src_url file_url =
     (if is_url_format_valid file_url then file_url else convert_url_format file_url)"


section \<open>TopAnimeStrm: series extractor and episode ranker\<close>

text \<open>The patterns \<^verbatim>\<open>^\[ANi\]\s*\<close>, \<^verbatim>\<open>\s*-\s*\d+\s*\[.*$\<close> and \<^verbatim>\<open>\s*\[.*$\<close> of
  \<open>_extract_anime_name\<close>, each deleted by \<open>re.sub\<close> in this order, and the final \<open>strip()\<close>.\<close>

definition ani_prefix_re :: "atom list" where
  "ani_prefix_re = [Bol] @ lit ''[ANi]'' @ [Star isspace]"

definition episode_part_re :: "atom list" where
  "episode_part_re =
     [Star isspace] @ lit ''-'' @ [Star isspace, Plus isdecimal, Star isspace] @ lit ''[''
     @ [Star dot, Eol]"

definition quality_re :: "atom list" where
  "quality_re = [Star isspace] @ lit ''['' @ [Star dot, Eol]"

definition extract_anime_name :: "pystr \<Rightarrow> pystr" where
  "extract_anime_name filename =
     (let name = re_sub ani_prefix_re True filename;
          name = re_sub episode_part_re True name;
          name = re_sub quality_re True name
      in strip name)"

text \<open>The exceptions of class \<open>Exception\<close>, as values: those that the modelled code raises
  itself, and any other one (a network or parser error of a fetch, for example).\<close>

datatype error = ValueError | UnicodeEncodeError | AttributeError | TypeError | Other_exception

text \<open>\<open>int(s)\<close> on a non-empty run of decimal digits, which is all the program passes to
  it. CPython (3.11, and the security releases of older versions) refuses to convert more
  than \<open>sys.int_max_str_digits\<close> digits, 4300 unless configured, with a \<open>ValueError\<close>.\<close>

definition int_max_str_digits :: nat where
  "int_max_str_digits = 4300"

definition py_int :: "pystr \<Rightarrow> error + int" where
  "py_int ds =
     (if int_max_str_digits < length ds then Inl ValueError else Inr (int (int_digits 0 ds)))"

text \<open>The pattern \<^verbatim>\<open>- (\d+)\<close> of \<open>_extract_episode_number\<close>: a hyphen, one space
  character, and a group of one or more digits.\<close>

definition episode_number_re :: "atom list" where
  "episode_number_re = lit ''- '' @ [GOpen, Plus isdecimal, GClose]"

definition extract_episode_number :: "pystr \<Rightarrow> error + int" where
  "extract_episode_number filename =
     (case re_search episode_number_re True filename of
        Some (rest, Some ds) \<Rightarrow> py_int ds
      | _ \<Rightarrow> Inr 0)"


section \<open>TopAnimeStrm: the catalog aggregator\<close>

text \<open>
  \<open>anime_series\<close> is a \<open>dict\<close> from the series name to the list of its episodes. A \<open>dict\<close>
  keeps its keys in the order of their first insertion, and \<open>sorted\<close> reads them in that
  order, so the dictionary is an association list in insertion order. \<open>add_episode\<close> is
  the body \<open>if anime_name not in anime_series: anime_series[anime_name] = []\<close> followed by
  \<open>anime_series[anime_name].append(clean_name)\<close>.
\<close>

type_synonym series = "(pystr \<times> pystr list) list"

fun add_episode :: "series \<Rightarrow> pystr \<Rightarrow> pystr \<Rightarrow> series" where
  "add_episode [] anime_name clean_name = [(anime_name, [clean_name])]"
| "add_episode ((k, episodes) # m) anime_name clean_name =
     (if k = anime_name then (k, episodes @ [clean_name]) # m
      else (k, episodes) # add_episode m anime_name clean_name)"

text \<open>The first loop of \<open>_clean_and_get_top15\<close>.\<close>

fun group_series :: "series \<Rightarrow> pystr list \<Rightarrow> series" where
  "group_series anime_series [] = anime_series"
| "group_series anime_series (filename # video_files) =
     (let clean_name = clean_filename filename in
      if clean_name = [] then group_series anime_series video_files
      else
        let anime_name = extract_anime_name clean_name in
        if anime_name \<noteq> []
        then group_series (add_episode anime_series anime_name clean_name) video_files
        else group_series anime_series video_files)"

text \<open>\<open>sorted(anime_series.items(), key=lambda x: len(x[1]), reverse=True)\<close>. Python's sort is
  stable, also with \<open>reverse=True\<close>: groups with equally many episodes keep their order.
  That is the stable sort on the negated key.\<close>

definition sorted_anime :: "pystr list \<Rightarrow> series" where
  "sorted_anime video_files =
     sort_key (\<lambda>x. - int (length (snd x))) (group_series [] video_files)"

definition top15_anime :: "pystr list \<Rightarrow> series" where
  "top15_anime video_files = take 15 (sorted_anime video_files)"

text \<open>\<open>sorted(episodes, key=lambda x: self._extract_episode_number(x))\<close>: the key of every
  episode is computed first, and an exception of the key function leaves the sort.\<close>

definition episode_key :: "pystr \<Rightarrow> int" where
  "episode_key x = (case extract_episode_number x of Inr k \<Rightarrow> k | Inl e \<Rightarrow> 0)"

definition sorted_episodes :: "pystr list \<Rightarrow> error + pystr list" where
  "sorted_episodes episodes =
     (case find (\<lambda>x. isl (extract_episode_number x)) episodes of
        Some x \<Rightarrow> Inl (projl (extract_episode_number x))
      | None \<Rightarrow> Inr (sort_key episode_key episodes))"

text \<open>The second loop: the episodes of the groups, in rank order.\<close>

fun flatten_groups :: "series \<Rightarrow> error + pystr list" where
  "flatten_groups [] = Inr []"
| "flatten_groups ((anime_name, episodes) # groups) =
     (case sorted_episodes episodes of
        Inl e \<Rightarrow> Inl e
      | Inr sorted_eps \<Rightarrow>
          (case flatten_groups groups of
             Inl e \<Rightarrow> Inl e
           | Inr cleaned_files \<Rightarrow> Inr (sorted_eps @ cleaned_files)))"

definition clean_and_get_top15 :: "pystr list \<Rightarrow> error + pystr list" where
  "clean_and_get_top15 video_files = flatten_groups (top15_anime video_files)"


section \<open>TopAnimeStrm: the retry decorator\<close>

text \<open>
  What a call raises: an instance of \<open>Exception\<close>, or one of the exceptions that derive
  from \<open>BaseException\<close> only. The decorator is applied with \<open>ExceptionToCheck = Exception\<close>,
  so \<open>except ExceptionToCheck\<close> catches exactly the first kind.
\<close>

datatype exc = Exc error | KeyboardInterrupt | SystemExit

fun is_Exception :: "exc \<Rightarrow> bool" where
  "is_Exception (Exc e) = True"
| "is_Exception KeyboardInterrupt = False"
| "is_Exception SystemExit = False"

text \<open>
  The wrapped function talks to the network, so a call of it is a step on the state of
  the world that returns a value or raises. What the wrapper itself does to the world is
  recorded in a trace: the warning before a retry (with the delay it announces), the call
  \<open>time.sleep(mdelay)\<close>, and the final warning.
\<close>

datatype event = Warn_retry int | Sleep int | Warn_gave_up

type_synonym ('w, 'a) action = "'w \<Rightarrow> (exc + 'a) \<times> 'w"

text \<open>The loop of \<open>f_retry\<close>, from the values of \<open>mtries\<close> and \<open>mdelay\<close> on. The logger is
  the application's logger in both uses, so the \<open>print\<close> branches are not taken.\<close>

function f_retry ::
  "(exc \<Rightarrow> bool) \<Rightarrow> int \<Rightarrow> 'a \<Rightarrow> ('w, 'a) action \<Rightarrow> int \<Rightarrow> int \<Rightarrow> 'w \<times> event list
    \<Rightarrow> (exc + 'a) \<times> 'w \<times> event list" where
  "f_retry ExceptionToCheck backoff ret f mtries mdelay (w, trace) =
     (if mtries > 0 then
        (case f w of
           (Inr v, w') \<Rightarrow> (Inr v, w', trace)
         | (Inl e, w') \<Rightarrow>
             if ExceptionToCheck e
             then f_retry ExceptionToCheck backoff ret f (mtries - 1) (mdelay * backoff)
                    (w', trace @ [Warn_retry mdelay, Sleep mdelay])
             else (Inl e, w', trace))
      else (Inr ret, w, trace @ [Warn_gave_up]))"
  by pat_completeness auto
termination
  by (relation "measure (\<lambda>(c, b, r, f, mtries, mdelay, s). nat mtries)") auto

text \<open>\<open>retry(ExceptionToCheck, tries, delay, backoff, logger, ret)(f)\<close>.\<close>

definition retry ::
  "(exc \<Rightarrow> bool) \<Rightarrow> int \<Rightarrow> int \<Rightarrow> int \<Rightarrow> 'a \<Rightarrow> ('w, 'a) action \<Rightarrow> 'w \<times> event list
    \<Rightarrow> (exc + 'a) \<times> 'w \<times> event list" where
  "retry ExceptionToCheck tries delay backoff ret f = f_retry ExceptionToCheck backoff ret f tries delay"

text \<open>Both fetch operations are decorated with \<open>@retry(Exception, tries=3, logger=logger,
  ret=[])\<close>; \<open>delay\<close> and \<open>backoff\<close> keep their defaults 3 and 1. Their bodies fetch from
  the network and are parameters here.\<close>

definition get_latest_list ::
  "('w, 'a list) action \<Rightarrow> 'w \<times> event list \<Rightarrow> (exc + 'a list) \<times> 'w \<times> event list" where
  "get_latest_list body = retry is_Exception 3 3 1 [] body"

definition get_current_season_list ::
  "('w, 'a list) action \<Rightarrow> 'w \<times> event list \<Rightarrow> (exc + 'a list) \<times> 'w \<times> event list" where
  "get_current_season_list body = retry is_Exception 3 3 1 [] body"


section \<open>Percent-encoding: \<open>urllib.parse.quote\<close>\<close>

text \<open>
  \<open>quote(s, safe)\<close> of the standard library: the string is encoded as UTF-8, which raises
  \<open>UnicodeEncodeError\<close> on a surrogate code point, and every byte that is not a letter,
  a digit, one of \<open>_.-~\<close> or a character of \<open>safe\<close> becomes \<open>%XX\<close> with upper-case
  hexadecimal digits.
\<close>

definition is_surrogate :: "nat \<Rightarrow> bool" where
  "is_surrogate c = (0xD800 \<le> c \<and> c \<le> 0xDFFF)"

definition utf8_encode_char :: "nat \<Rightarrow> nat list" where
  "utf8_encode_char c =
     (if c < 0x80 then [c]
      else if c < 0x800 then [0xC0 + c div 64, 0x80 + c mod 64]
      else if c < 0x10000 then [0xE0 + c div 4096, 0x80 + c div 64 mod 64, 0x80 + c mod 64]
      else [0xF0 + c div 262144, 0x80 + c div 4096 mod 64, 0x80 + c div 64 mod 64,
            0x80 + c mod 64])"

definition utf8_encode :: "pystr \<Rightarrow> error + nat list" where
  "utf8_encode s =
     (if list_ex is_surrogate s then Inl UnicodeEncodeError
      else Inr (concat (map utf8_encode_char s)))"

definition always_safe :: "nat \<Rightarrow> bool" where
  "always_safe b = ((65 \<le> b \<and> b \<le> 90) \<or> (97 \<le> b \<and> b \<le> 122) \<or> (48 \<le> b \<and> b \<le> 57)
     \<or> b = 95 \<or> b = 46 \<or> b = 45 \<or> b = 126)"

definition hexdigit :: "nat \<Rightarrow> nat" where
  "hexdigit n = (if n < 10 then 48 + n else 55 + n)"

definition quote_byte :: "pystr \<Rightarrow> nat \<Rightarrow> pystr" where
  "quote_byte safe b =
     (if always_safe b \<or> b \<in> set safe then [b]
      else [37, hexdigit (b div 16), hexdigit (b mod 16)])"

definition quote :: "pystr \<Rightarrow> pystr \<Rightarrow> error + pystr" where
  "quote s safe =
     (case utf8_encode s of
        Inl e \<Rightarrow> Inl e
      | Inr bytes \<Rightarrow> Inr (concat (map (quote_byte safe) bytes)))"


section \<open>TopAnimeStrm: the descriptor writer\<close>

text \<open>
  The attributes of the plugin that \<open>__touch_strm_file\<close> reads. \<open>_date\<close> is set by
  \<open>__get_ani_season\<close> only, so it can be missing; reading it then raises
  \<open>AttributeError\<close>. \<open>_storageplace\<close> is a configuration value, \<open>None\<close> until configured;
  an f-string prints \<open>None\<close> as the text \<open>None\<close>.
\<close>

record plugin =
  storageplace :: "pystr option"
  date :: "pystr option"

definition format_value :: "pystr option \<Rightarrow> pystr" where
  "format_value v = (case v of None \<Rightarrow> py ''None'' | Some s \<Rightarrow> s)"

text \<open>The file system maps a path to the content of the file there. What the operating
  system does with \<open>open(file_path, 'w')\<close> and \<open>file.write(src_url)\<close> is a parameter of the
  call: the file is written, or \<open>open\<close> raises and nothing is created, or the file is
  created and writing raises, which leaves a file with some other content.\<close>

type_synonym filesystem = "pystr \<rightharpoonup> pystr"

datatype io_outcome = Written | Open_raises | Write_raises pystr

text \<open>The first part of \<open>__touch_strm_file\<close>: the URL to write. \<open>not file_url\<close> holds for
  \<open>None\<close> and for the empty string.\<close>

definition src_url :: "plugin \<Rightarrow> pystr \<Rightarrow> pystr option \<Rightarrow> exc + pystr" where
  "src_url self file_name file_url =
     (if file_url = None \<or> file_url = Some [] then
        (case quote file_name (py ''.'') of
           Inl e \<Rightarrow> Inl (Exc e)
         | Inr encoded_filename \<Rightarrow>
             (case date self of
                None \<Rightarrow> Inl (Exc AttributeError)
              | Some d \<Rightarrow>
                  Inr (py ''https://openani.an-i.workers.dev/'' @ d @ py ''/'' @ encoded_filename
                       @ py ''?d=true'')))
      else Inr (feed_src_url (the file_url)))"

definition file_path :: "plugin \<Rightarrow> pystr \<Rightarrow> pystr" where
  "file_path self file_name =
     format_value (storageplace self) @ py ''/'' @ clean_filename file_name @ py ''.strm''"

text \<open>\<open>__touch_strm_file\<close>: the result, or the exception that leaves the call, and the
  file system after the call.\<close>

definition touch_strm_file ::
  "plugin \<Rightarrow> io_outcome \<Rightarrow> filesystem \<Rightarrow> pystr \<Rightarrow> pystr option \<Rightarrow> (exc + bool) \<times> filesystem" where
  "touch_strm_file self io fs file_name file_url =
     (case src_url self file_name file_url of
        Inl e \<Rightarrow> (Inl e, fs)
      | Inr url \<Rightarrow>
          if file_path self file_name \<in> dom fs then (Inr False, fs)
          else (case io of
                  Written \<Rightarrow> (Inr True, fs(file_path self file_name \<mapsto> url))
                | Open_raises \<Rightarrow> (Inr False, fs)
                | Write_raises partial \<Rightarrow> (Inr False, fs(file_path self file_name \<mapsto> partial))))"


section \<open>TopAnimeStrm: the scraped-listing extraction\<close>

text \<open>
  What \<open>get_current_season_list\<close> reads from the rendered page: the \<open>src\<close> attribute of
  every \<open>video\<close> element, the \<open>href\<close> of every link selected by \<^verbatim>\<open>a[href*=".mp4"]\<close>, the
  \<open>data-filename\<close> attribute of every element that has one (\<open>get_attribute\<close> returns
  \<open>None\<close> for a missing attribute), the serialized markup \<open>page.content()\<close> and the text
  \<open>page.text_content('body')\<close>, which is \<open>None\<close> when the page has no body.
\<close>

record page =
  video_src :: "pystr option list"
  link_href :: "pystr option list"
  data_filename :: "pystr option list"
  content :: pystr
  body_text :: "pystr option"

text \<open>\<open>if x not in video_files: video_files.append(x)\<close>.\<close>

definition append_new :: "pystr list \<Rightarrow> pystr \<Rightarrow> pystr list" where
  "append_new video_files x = (if x \<in> set video_files then video_files else video_files @ [x])"

text \<open>Layer 1, the \<open>video\<close> elements: every source that ends with \<open>.mp4\<close> is appended, with
  no look at what the list holds already.\<close>

fun layer_video :: "pystr list \<Rightarrow> pystr option list \<Rightarrow> pystr list" where
  "layer_video video_files [] = video_files"
| "layer_video video_files (None # srcs) = layer_video video_files srcs"
| "layer_video video_files (Some src # srcs) =
     (if src \<noteq> [] \<and> endswith src (py ''.mp4'')
      then layer_video (video_files @ [split_last src 47]) srcs
      else layer_video video_files srcs)"

text \<open>Layer 2, the links.\<close>

fun layer_links :: "pystr list \<Rightarrow> pystr option list \<Rightarrow> pystr list" where
  "layer_links video_files [] = video_files"
| "layer_links video_files (None # hrefs) = layer_links video_files hrefs"
| "layer_links video_files (Some href # hrefs) =
     (if href \<noteq> [] \<and> contains (py ''.mp4'') href
      then layer_links (append_new video_files (split_last href 47)) hrefs
      else layer_links video_files hrefs)"

text \<open>Layer 3, the \<open>data-filename\<close> attributes.\<close>

fun layer_data :: "pystr list \<Rightarrow> pystr option list \<Rightarrow> pystr list" where
  "layer_data video_files [] = video_files"
| "layer_data video_files (None # names) = layer_data video_files names"
| "layer_data video_files (Some filename # names) =
     (if filename \<noteq> [] \<and> contains (py ''.mp4'') filename
      then layer_data (append_new video_files filename) names
      else layer_data video_files names)"

text \<open>Layer 4, the six patterns over the markup. With \<open>q\<close> a double or single quote:
  \<^verbatim>\<open>"([^"]*\.mp4[^"]*)"\<close>, the same between single quotes, and
  \<^verbatim>\<open>KEY["\']?\s*:\s*["\']([^"\']*\.mp4[^"\']*)["\']\<close> for the keys \<open>filename\<close>, \<open>name\<close>,
  \<open>src\<close> and \<open>href\<close>. The double quote is the code point 34, the single quote 39.\<close>

definition quoted_re :: "nat \<Rightarrow> atom list" where
  "quoted_re q =
     [One (\<lambda>x. x = q), GOpen, Star (none_of [q])] @ lit ''.mp4''
     @ [Star (none_of [q]), GClose, One (\<lambda>x. x = q)]"

definition keyed_re :: "string \<Rightarrow> atom list" where
  "keyed_re key =
     lit key @ [Opt (one_of [34, 39]), Star isspace] @ lit '':''
     @ [Star isspace, One (one_of [34, 39]), GOpen, Star (none_of [34, 39])] @ lit ''.mp4''
     @ [Star (none_of [34, 39]), GClose, One (one_of [34, 39])]"

definition patterns :: "atom list list" where
  "patterns = [quoted_re 34, quoted_re 39, keyed_re ''filename'', keyed_re ''name'',
     keyed_re ''src'', keyed_re ''href'']"

fun add_matches :: "pystr list \<Rightarrow> pystr list \<Rightarrow> pystr list" where
  "add_matches video_files [] = video_files"
| "add_matches video_files (match # matches) =
     (if match \<noteq> [] then add_matches (append_new video_files match) matches
      else add_matches video_files matches)"

fun layer_markup :: "pystr list \<Rightarrow> atom list list \<Rightarrow> pystr \<Rightarrow> pystr list" where
  "layer_markup video_files [] markup = video_files"
| "layer_markup video_files (pattern # ps) markup =
     layer_markup (add_matches video_files (re_findall pattern True markup)) ps markup"

text \<open>Layer 5, the pattern \<^verbatim>\<open>([^/\s]+\.mp4[^\s]*)\<close> over the text of the body.
  \<open>re.findall\<close> raises \<open>TypeError\<close> when the text is \<open>None\<close>.\<close>

definition text_re :: "atom list" where
  "text_re =
     [GOpen, Plus (\<lambda>c. c \<noteq> 47 \<and> \<not> isspace c)] @ lit ''.mp4''
     @ [Star (\<lambda>c. \<not> isspace c), GClose]"

definition layer_text :: "pystr list \<Rightarrow> pystr \<Rightarrow> pystr list" where
  "layer_text video_files all_text = foldl append_new video_files (re_findall text_re True all_text)"

text \<open>The list \<open>video_files\<close> that is handed to \<open>_clean_and_get_top15\<close>.\<close>

definition collect_video_files :: "page \<Rightarrow> error + pystr list" where
  "collect_video_files p =
     (let video_files = layer_video [] (video_src p);
          video_files = layer_links video_files (link_href p);
          video_files = layer_data video_files (data_filename p);
          video_files = layer_markup video_files patterns (content p)
      in case body_text p of
           None \<Rightarrow> Inl TypeError
         | Some all_text \<Rightarrow> Inr (layer_text video_files all_text))"


section \<open>VideoStrm: the descriptor file name\<close>

text \<open>The class \<^verbatim>\<open>[<>:"/\\|?*]\<close> of \<open>_sanitize_filename\<close>: the characters
  \<^verbatim>\<open>< > : " / \ | ? *\<close>, as code points.\<close>

definition illegal_chars :: "nat list" where
  "illegal_chars = [60, 62, 58, 34, 47, 92, 124, 63, 42]"

definition illegal_re :: "atom list" where
  "illegal_re = [One (one_of illegal_chars)]"

text \<open>\<open>s.split()\<close>: the maximal runs of characters that are not white space.\<close>

function split_ws :: "pystr \<Rightarrow> pystr list" where
  "split_ws s =
     (case dropWhile isspace s of
        [] \<Rightarrow> []
      | c # w \<Rightarrow> (c # takeWhile (\<lambda>x. \<not> isspace x) w) # split_ws (dropWhile (\<lambda>x. \<not> isspace x) w))"
  by pat_completeness auto
termination
proof (relation "measure length")
  show "wf (measure length)" by simp
next
  fix s :: pystr and c w
  assume "dropWhile isspace s = c # w"
  then have "length (c # w) \<le> length s"
    by (metis length_dropWhile_le)
  moreover have "length (dropWhile (\<lambda>x. \<not> isspace x) w) \<le> length w"
    by (rule length_dropWhile_le)
  ultimately show "(dropWhile (\<lambda>x. \<not> isspace x) w, s) \<in> measure length"
    by simp
qed

declare split_ws.simps [simp del]

text \<open>\<open>sep.join(words)\<close>.\<close>

fun join :: "pystr \<Rightarrow> pystr list \<Rightarrow> pystr" where
  "join sep [] = []"
| "join sep [w] = w"
| "join sep (w # v # ws) = w @ sep @ join sep (v # ws)"

definition sanitize_filename :: "pystr \<Rightarrow> pystr" where
  "sanitize_filename filename =
     (let filename = re_sub illegal_re True filename;
          filename = join (py '' '') (split_ws filename)
      in if length filename > 200 then take 200 filename else filename)"

text \<open>The file name that \<open>create_strm_file\<close> uses: \<open>code if code else
  self._sanitize_filename(title)\<close>. A missing and an empty \<open>code\<close> are both false.\<close>

definition strm_filename :: "pystr \<Rightarrow> pystr option \<Rightarrow> pystr" where
  "strm_filename title code =
     (case code of
        None \<Rightarrow> sanitize_filename title
      | Some c \<Rightarrow> if c \<noteq> [] then c else sanitize_filename title)"


section \<open>Auxiliary notions for the proofs\<close>

text \<open>\<open>tag_at s\<close>: the text \<open>s\<close> begins with a match of the tag pattern, that is \<open><\<close>, a
  character other than \<open>>\<close>, and a \<open>>\<close> somewhere later. \<open>tagfree s\<close>: no position of
  \<open>s\<close> begins such a match.\<close>

fun tag_at :: "pystr \<Rightarrow> bool" where
  "tag_at (a # c # t) = (a = 60 \<and> c \<noteq> 62 \<and> 62 \<in> set t)"
| "tag_at _ = False"

fun tagfree :: "pystr \<Rightarrow> bool" where
  "tagfree [] = True"
| "tagfree (c # s) = (\<not> tag_at (c # s) \<and> tagfree s)"

text \<open>\<open>marker_at s\<close>: the text \<open>s\<close> begins with a hyphen, one space and a decimal digit, the
  beginning of a match of the episode pattern. \<open>first_marker s\<close>: the digits after the
  first such place of \<open>s\<close>. \<open>marker_within p s\<close>: such a place begins at one of the first
  \<open>length p\<close> positions of \<open>s\<close>.\<close>

fun marker_at :: "pystr \<Rightarrow> bool" where
  "marker_at (a # b # d # t) = (a = 45 \<and> b = 32 \<and> isdecimal d)"
| "marker_at _ = False"

fun first_marker :: "pystr \<Rightarrow> pystr option" where
  "first_marker [] = None"
| "first_marker (c # s) =
     (if marker_at (c # s) then Some (takeWhile isdecimal (drop 2 (c # s)))
      else first_marker s)"

fun marker_within :: "pystr \<Rightarrow> pystr \<Rightarrow> bool" where
  "marker_within [] s = False"
| "marker_within (c # p) s = (marker_at s \<or> marker_within p (tl s))"

text \<open>\<open>no_adjacent_space s\<close>: no two neighbouring characters of \<open>s\<close> are both white space.\<close>

fun no_adjacent_space :: "pystr \<Rightarrow> bool" where
  "no_adjacent_space (c # d # s) = (\<not> (isspace c \<and> isspace d) \<and> no_adjacent_space (d # s))"
| "no_adjacent_space _ = True"


section \<open>Properties\<close>

lemma endswith_append: "endswith (s @ p) p"
proof -
  have "startswith (xs @ ys) xs" for xs ys :: pystr
    by (induction xs) auto
  then show ?thesis
    by (simp add: endswith_def)
qed

lemma endswith_iff: "endswith s p \<longleftrightarrow> (\<exists>q. s = q @ p)"
proof -
  have sw: "startswith xs ps \<longleftrightarrow> (\<exists>r. xs = ps @ r)" for xs ps :: pystr
    by (induction xs ps rule: startswith.induct) auto
  show ?thesis
  proof
    assume "endswith s p"
    then obtain r where "rev s = rev p @ r"
      by (auto simp: endswith_def sw)
    then have "s = rev r @ p"
      by (metis rev_append rev_rev_ident)
    then show "\<exists>q. s = q @ p" by blast
  next
    assume "\<exists>q. s = q @ p"
    then show "endswith s p"
      by (auto simp: endswith_append)
  qed
qed

text \<open>The two branches of \<open>_convert_url_format\<close> that append do give the suffix: a link
  without \<open>?d=mp4\<close> is normalized to a URL that ends with \<open>.mp4?d=true\<close>.\<close>

lemma feed_src_url_without_marker:
  "\<not> contains (py ''?d=mp4'') url \<Longrightarrow> endswith (feed_src_url url) (py ''.mp4?d=true'')"
proof -
  assume no: "\<not> contains (py ''?d=mp4'') url"
  have split: "py ''.mp4?d=true'' = py ''.mp4'' @ py ''?d=true''"
    by (simp add: py_def)
  show ?thesis
  proof (cases "is_url_format_valid url")
    case True
    then show ?thesis
      by (simp add: feed_src_url_def is_url_format_valid_def)
  next
    case False
    show ?thesis
    proof (cases "endswith url (py ''.mp4'')")
      case True
      then obtain q where "url = q @ py ''.mp4''"
        by (auto simp: endswith_iff)
      then have "url @ py ''?d=true'' = q @ py ''.mp4?d=true''"
        by (simp add: split)
      then have "endswith (url @ py ''?d=true'') (py ''.mp4?d=true'')"
        by (simp only: endswith_append)
      with no False True show ?thesis
        by (simp add: feed_src_url_def convert_url_format_def)
    next
      case nomp4: False
      with no False show ?thesis
        by (simp add: feed_src_url_def convert_url_format_def endswith_append)
    qed
  qed
qed

text \<open>
  C1. The feed-shape path does not always end in \<open>.mp4?d=true\<close>: a link that has
  \<open>?d=mp4\<close> in the middle keeps what follows it. On the link
  \<open>https://h/ep01?d=mp4&t=1\<close> the path returns \<open>https://h/ep01.mp4?d=true&t=1\<close>.
\<close>

theorem feed_src_url_query_tail:
  "feed_src_url (py ''https://h/ep01?d=mp4&t=1'') = py ''https://h/ep01.mp4?d=true&t=1''
   \<and> \<not> endswith (feed_src_url (py ''https://h/ep01?d=mp4&t=1'')) (py ''.mp4?d=true'')"
  by (simp add: feed_src_url_def is_url_format_valid_def convert_url_format_def
      py_replace_def endswith_def py_def)


lemma contains_single: "contains [c] s \<longleftrightarrow> c \<in> set s"
  by (induction s) auto

lemma py_mp4: "py ''.mp4'' = [46, 109, 112, 52]"
  by (simp add: py_def)

lemma rmatch_star_until:
  "rmatch [Star (\<lambda>x. x \<noteq> k), One (\<lambda>x. x = k)] b gs g t =
     (if k \<in> set t then Some (tl (dropWhile (\<lambda>x. x \<noteq> k) t), g) else None)"
  by (induction t arbitrary: b) auto

lemma none_of_single: "none_of [k] = (\<lambda>x. x \<noteq> k)"
  by (auto simp: none_of_def fun_eq_iff)

lemma rmatch_tag:
  "rmatch tag_re b s g0 s =
     (if tag_at s then Some (tl (dropWhile (\<lambda>x. x \<noteq> 62) (tl s)), g0) else None)"
  by (cases s rule: tag_at.cases)
     (simp_all add: tag_re_def lit_def py_def none_of_single rmatch_star_until)

lemma re_sub_tag_step:
  "re_sub tag_re b s =
     (if tag_at s then re_sub tag_re False (tl (dropWhile (\<lambda>x. x \<noteq> 62) (tl s)))
      else (case s of [] \<Rightarrow> [] | c # s' \<Rightarrow> c # re_sub tag_re False s'))"
proof (cases "tag_at s")
  case True
  then have "s \<noteq> []" by auto
  then have "length (tl (dropWhile (\<lambda>x. x \<noteq> 62) (tl s))) < length s"
    using length_dropWhile_le [of "\<lambda>x. x \<noteq> 62" "tl s"] by (cases s) auto
  with True show ?thesis
    by (subst re_sub.simps) (simp add: rmatch_tag)
next
  case False
  then show ?thesis
    by (subst re_sub.simps) (simp add: rmatch_tag)
qed

lemma re_sub_tagfree: "tagfree s \<Longrightarrow> re_sub tag_re b s = s"
  by (induction s arbitrary: b) (simp_all add: re_sub_tag_step [of _ "[]"] re_sub_tag_step [of _ "_ # _"])


lemma set_tl_subset: "set (tl xs) \<subseteq> set xs"
  by (cases xs) auto

lemma tag_at_hd: "tag_at (a # r) \<Longrightarrow> a = 60"
  by (cases r) auto

lemma set_re_sub_tag: "set (re_sub tag_re b s) \<subseteq> set s"
proof (induction "length s" arbitrary: s b rule: less_induct)
  case less
  show ?case
  proof (cases "tag_at s")
    case True
    then obtain a c t where s: "s = a # c # t"
      by (cases s rule: tag_at.cases) auto
    let ?rest = "tl (dropWhile (\<lambda>x. x \<noteq> 62) (tl s))"
    have "set ?rest \<subseteq> set (dropWhile (\<lambda>x. x \<noteq> 62) (tl s))"
      by (rule set_tl_subset)
    moreover have "set (dropWhile (\<lambda>x. x \<noteq> 62) (tl s)) \<subseteq> set (tl s)"
      by (auto dest: set_dropWhileD)
    moreover have "set (tl s) \<subseteq> set s"
      by (rule set_tl_subset)
    ultimately have sub: "set ?rest \<subseteq> set s"
      by blast
    have "length ?rest < length s"
      using length_dropWhile_le [of "\<lambda>x. x \<noteq> 62" "tl s"] by (simp add: s)
    then have "set (re_sub tag_re False ?rest) \<subseteq> set ?rest"
      by (rule less)
    with sub True show ?thesis
      by (subst re_sub_tag_step) auto
  next
    case False
    show ?thesis
    proof (cases s)
      case Nil
      then show ?thesis by (simp add: re_sub_tag_step [of _ "[]"])
    next
      case (Cons c s')
      then have "set (re_sub tag_re False s') \<subseteq> set s'"
        using less [of s' False] by simp
      with False Cons show ?thesis
        by (subst re_sub_tag_step) auto
    qed
  qed
qed

lemma tagfree_re_sub: "tagfree (re_sub tag_re b s)"
proof (induction "length s" arbitrary: s b rule: less_induct)
  case less
  show ?case
  proof (cases "tag_at s")
    case True
    then obtain a c t where s: "s = a # c # t"
      by (cases s rule: tag_at.cases) auto
    let ?rest = "tl (dropWhile (\<lambda>x. x \<noteq> 62) (tl s))"
    have "length ?rest < length s"
      using length_dropWhile_le [of "\<lambda>x. x \<noteq> 62" "tl s"] by (simp add: s)
    then have "tagfree (re_sub tag_re False ?rest)"
      by (rule less)
    with True show ?thesis
      by (subst re_sub_tag_step) simp
  next
    case False
    show ?thesis
    proof (cases s)
      case Nil
      then show ?thesis by (simp add: re_sub_tag_step [of _ "[]"])
    next
      case (Cons c s')
      have ih: "tagfree (re_sub tag_re False s')"
        using less [of s' False] Cons by simp
      have step: "re_sub tag_re b s = c # re_sub tag_re False s'"
        using False Cons by (subst re_sub_tag_step) simp
      have "\<not> tag_at (c # re_sub tag_re False s')"
      proof
        assume tg: "tag_at (c # re_sub tag_re False s')"
        then obtain d t where r: "re_sub tag_re False s' = d # t" and c: "c = 60"
          and d: "d \<noteq> 62" and t: "62 \<in> set t"
          by (cases "c # re_sub tag_re False s'" rule: tag_at.cases) auto
        have in_s': "62 \<in> set s'"
          using set_re_sub_tag [of False s'] r t by auto
        then obtain d' t' where s': "s' = d' # t'"
          by (cases s') auto
        show False
        proof (cases "d' = 62")
          case True
          with s' have "\<not> tag_at s'"
            using tag_at_hd [of d' t'] by auto
          with s' True have "re_sub tag_re False s' = 62 # re_sub tag_re False t'"
            by (subst re_sub_tag_step) simp
          with r d show False by simp
        next
          case False
          with in_s' s' have "62 \<in> set t'" by simp
          with False s' c Cons have "tag_at s" by simp
          with \<open>\<not> tag_at s\<close> show False ..
        qed
      qed
      with ih step show ?thesis by simp
    qed
  qed
qed

lemma tag_at_append: "tag_at s \<Longrightarrow> tag_at (s @ ys)"
  by (cases s rule: tag_at.cases) auto

lemma tagfree_suffix: "tagfree (xs @ ys) \<Longrightarrow> tagfree ys"
  by (induction xs) auto

lemma tagfree_prefix: "tagfree (xs @ ys) \<Longrightarrow> tagfree xs"
proof (induction xs)
  case Nil
  then show ?case by simp
next
  case (Cons x xs)
  then show ?case
    using tag_at_append [of "x # xs" ys] by auto
qed

lemma tagfree_append:
  assumes "60 \<notin> set m" "62 \<notin> set m" "tagfree s"
  shows "tagfree (s @ m)"
  using assms
proof (induction s)
  case Nil
  have "tagfree m" if "60 \<notin> set m" for m :: pystr
    using that by (induction m) (auto elim: tag_at.elims)
  with Nil show ?case by simp
next
  case (Cons c s)
  have "\<not> tag_at (c # s @ m)"
  proof (cases s)
    case Nil
    with Cons.prems show ?thesis by (cases m) auto
  next
    case (Cons d t)
    with Cons.prems show ?thesis by auto
  qed
  with Cons show ?case by simp
qed

lemma split_last_suffix: "\<exists>p. s = p @ split_last s c"
proof -
  have "rev s = takeWhile (\<lambda>x. x \<noteq> c) (rev s) @ dropWhile (\<lambda>x. x \<noteq> c) (rev s)"
    by simp
  then have "s = rev (dropWhile (\<lambda>x. x \<noteq> c) (rev s)) @ split_last s c"
    unfolding split_last_def by (metis rev_append rev_rev_ident)
  then show ?thesis ..
qed

lemma strip_infix: "\<exists>p q. s = p @ strip s @ q"
proof -
  let ?t = "dropWhile isspace s"
  have 1: "s = takeWhile isspace s @ ?t" by simp
  have "rev ?t = takeWhile isspace (rev ?t) @ dropWhile isspace (rev ?t)" by simp
  then have "?t = strip s @ rev (takeWhile isspace (rev ?t))"
    unfolding strip_def by (metis rev_append rev_rev_ident)
  with 1 show ?thesis by metis
qed

lemma hd_strip: "strip s \<noteq> [] \<Longrightarrow> \<not> isspace (hd (strip s))"
proof -
  assume ne: "strip s \<noteq> []"
  let ?t = "dropWhile isspace s"
  have "rev ?t = takeWhile isspace (rev ?t) @ dropWhile isspace (rev ?t)" by simp
  then have t: "?t = strip s @ rev (takeWhile isspace (rev ?t))"
    unfolding strip_def by (metis rev_append rev_rev_ident)
  with ne have "?t \<noteq> []" by (metis append_is_Nil_conv)
  then have "\<not> isspace (hd ?t)" by (rule hd_dropWhile)
  moreover have "hd ?t = hd (strip s)"
    using ne t by (metis hd_append2)
  ultimately show ?thesis by simp
qed

lemma strip_fix:
  assumes "\<not> isspace (hd s)" "\<not> isspace (last s)"
  shows "strip s = s"
proof -
  have 1: "dropWhile isspace s = s"
    using assms by (simp add: dropWhile_eq_self_iff)
  have 2: "dropWhile isspace (rev s) = rev s"
    using assms by (simp add: dropWhile_eq_self_iff hd_rev)
  show ?thesis
    by (simp add: strip_def 1 2)
qed


lemma not_space_mp4: "\<not> isspace 46" "\<not> isspace 52"
  by (simp_all add: isspace_def)

lemma clean_filename_shape:
  assumes "n \<noteq> []"
  shows "tagfree (clean_filename n)" and "47 \<notin> set (clean_filename n)"
    and "strip (clean_filename n) = clean_filename n"
    and "endswith (clean_filename n) (py ''.mp4'')"
proof -
  define f3 where "f3 = re_sub tag_re True (unquote
    (if contains (py ''?a=view'') n then split_first n (py ''?a=view'') else n))"
  define f4 where "f4 = (if contains (py ''/'') f3 then split_last f3 47 else f3)"
  define f5 where "f5 = strip f4"
  define m where "m = (if \<not> endswith f5 (py ''.mp4'') then f5 @ py ''.mp4'' else f5)"
  have m: "clean_filename n = m"
    using assms by (simp add: clean_filename_def Let_def f3_def f4_def f5_def m_def)
  have "tagfree f3"
    unfolding f3_def by (rule tagfree_re_sub)
  then have "tagfree f4"
    unfolding f4_def using split_last_suffix [of f3 47] by (metis tagfree_suffix)
  then have tf5: "tagfree f5"
    unfolding f5_def using strip_infix [of f4] by (metis tagfree_suffix tagfree_prefix)
  then have "tagfree (f5 @ py ''.mp4'')"
    by (intro tagfree_append) (simp_all add: py_def)
  with tf5 have 1: "tagfree m"
    by (simp add: m_def)
  have "47 \<notin> set f4"
    unfolding f4_def split_last_def
    by (auto simp: py_def contains_single dest: set_takeWhileD)
  then have "47 \<notin> set f5"
    unfolding f5_def using strip_infix [of f4] by (metis Un_iff set_append)
  then have 2: "47 \<notin> set m"
    by (simp add: m_def py_def)
  have 4: "endswith m (py ''.mp4'')"
    by (simp add: m_def endswith_append)
  then obtain q where q: "m = q @ [46, 109, 112, 52]"
    by (auto simp: endswith_iff py_def)
  then have last: "\<not> isspace (last m)"
    by (simp add: not_space_mp4)
  have hd5: "f5 \<noteq> [] \<Longrightarrow> \<not> isspace (hd f5)"
    unfolding f5_def by (rule hd_strip)
  have "\<not> isspace (hd m)"
  proof (cases "f5 = []")
    case True
    then show ?thesis
      by (simp add: m_def py_def endswith_def not_space_mp4)
  next
    case False
    with hd5 show ?thesis
      by (simp add: m_def)
  qed
  then have 3: "strip m = m"
    using last by (rule strip_fix)
  from 1 2 3 4 m show "tagfree (clean_filename n)" and "47 \<notin> set (clean_filename n)"
    and "strip (clean_filename n) = clean_filename n"
    and "endswith (clean_filename n) (py ''.mp4'')"
    by simp_all
qed

lemma clean_filename_encoded:
  "clean_filename (py ''My%2520Show.mp4'') = py ''My%20Show.mp4''"
  by (simp add: clean_filename_def Let_def py_def unquote_def hexval_def tag_re_def lit_def
      none_of_def re_sub.simps split_last_def strip_def isspace_def endswith_def)

lemma clean_filename_encoded_again:
  "clean_filename (py ''My%20Show.mp4'') = py ''My Show.mp4''"
  by (simp add: clean_filename_def Let_def py_def unquote_def hexval_def tag_re_def lit_def
      none_of_def re_sub.simps split_last_def strip_def isspace_def endswith_def)

lemma clean_filename_plain:
  "clean_filename (py ''a/[ANi] Show - 01 [1080P].mp4?a=view'') = py ''[ANi] Show - 01 [1080P].mp4''"
  by (simp add: clean_filename_def Let_def py_def unquote_def hexval_def tag_re_def lit_def
      none_of_def re_sub.simps split_last_def strip_def isspace_def endswith_def)

text \<open>
  C9. For every non-empty raw name the normalized name ends with \<open>.mp4\<close>, and the
  empty name is normalized to the empty name.
\<close>

theorem clean_filename_extension:
  "(n \<noteq> [] \<longrightarrow> endswith (clean_filename n) (py ''.mp4'')) \<and> clean_filename [] = []"
  by (simp add: clean_filename_def Let_def endswith_append)

theorem clean_filename_extension_witness:
  "py ''Show - 01'' \<noteq> [] \<and> endswith (clean_filename (py ''Show - 01'')) (py ''.mp4'')
   \<and> clean_filename [] = []"
  using clean_filename_extension [of "py ''Show - 01''"] by (simp add: py_def)

text \<open>
  Normalizing twice is not always normalizing once: a name that was percent-encoded twice
  is decoded once by each pass. \<open>My%2520Show.mp4\<close> becomes \<open>My%20Show.mp4\<close> and then
  \<open>My Show.mp4\<close>.
\<close>

theorem clean_filename_twice_counterexample:
  "clean_filename (clean_filename (py ''My%2520Show.mp4'')) \<noteq> clean_filename (py ''My%2520Show.mp4'')"
  by (simp add: clean_filename_encoded clean_filename_encoded_again) (simp add: py_def)

text \<open>A name can also gain the text \<open>?a=view\<close> when its tags are deleted; the next pass
  cuts the name there.\<close>

lemma clean_filename_marker_created:
  "clean_filename (py ''?a=<b>view'') = py ''?a=view.mp4''"
  "clean_filename (py ''?a=view.mp4'') = py ''.mp4''"
  by (simp_all add: clean_filename_def Let_def py_def unquote_def tag_re_def lit_def
      none_of_def re_sub.simps split_last_def strip_def isspace_def endswith_def)

text \<open>
  C2. For every raw name whose normalized name is left unchanged by percent-decoding and
  does not contain the text \<open>?a=view\<close>, normalizing twice yields the same string as
  normalizing once. (A \<open>%\<close> that starts no escape \<open>%XX\<close> does no harm.)
\<close>

theorem clean_filename_idempotent:
  assumes "unquote (clean_filename n) = clean_filename n"
    and "\<not> contains (py ''?a=view'') (clean_filename n)"
  shows "clean_filename (clean_filename n) = clean_filename n"
proof (cases "n = []")
  case True
  then show ?thesis by (simp add: clean_filename_def)
next
  case False
  define m where "m = clean_filename n"
  have tf: "tagfree m" and sl: "47 \<notin> set m" and st: "strip m = m"
    and ew: "endswith m (py ''.mp4'')"
    unfolding m_def using clean_filename_shape [OF False] by simp_all
  have "clean_filename m = m"
    using assms [folded m_def] tf sl st ew
    by (simp add: clean_filename_def Let_def re_sub_tagfree contains_single py_def [of "''/''"])
  then show ?thesis
    by (simp add: m_def)
qed

lemma clean_filename_percent:
  "clean_filename (py ''100% Show - 01 [x].mp4'') = py ''100% Show - 01 [x].mp4''"
  "unquote (py ''100% Show - 01 [x].mp4'') = py ''100% Show - 01 [x].mp4''"
  by (simp_all add: clean_filename_def Let_def py_def unquote_def hexval_def tag_re_def lit_def
      none_of_def re_sub.simps split_last_def strip_def isspace_def endswith_def)

theorem clean_filename_idempotent_witness:
  "37 \<in> set (clean_filename (py ''100% Show - 01 [x].mp4''))
   \<and> unquote (clean_filename (py ''100% Show - 01 [x].mp4''))
       = clean_filename (py ''100% Show - 01 [x].mp4'')
   \<and> \<not> contains (py ''?a=view'') (clean_filename (py ''100% Show - 01 [x].mp4''))
   \<and> clean_filename (clean_filename (py ''100% Show - 01 [x].mp4''))
       = clean_filename (py ''100% Show - 01 [x].mp4'')
   \<and> unquote (clean_filename (py ''a/[ANi] Show - 01 [1080P].mp4?a=view''))
       = clean_filename (py ''a/[ANi] Show - 01 [1080P].mp4?a=view'')
   \<and> \<not> contains (py ''?a=view'') (clean_filename (py ''a/[ANi] Show - 01 [1080P].mp4?a=view''))
   \<and> clean_filename (clean_filename (py ''a/[ANi] Show - 01 [1080P].mp4?a=view''))
       = clean_filename (py ''a/[ANi] Show - 01 [1080P].mp4?a=view'')"
proof -
  let ?n = "py ''100% Show - 01 [x].mp4''"
  have 0: "37 \<in> set (clean_filename ?n)"
    by (simp add: clean_filename_percent) (simp add: py_def)
  have 1: "unquote (clean_filename ?n) = clean_filename ?n"
    by (simp add: clean_filename_percent)
  have 2: "\<not> contains (py ''?a=view'') (clean_filename ?n)"
    by (simp add: clean_filename_percent) (simp add: py_def)
  let ?k = "py ''a/[ANi] Show - 01 [1080P].mp4?a=view''"
  have 3: "unquote (clean_filename ?k) = clean_filename ?k"
    by (simp add: clean_filename_plain) (simp add: py_def unquote_def)
  have 4: "\<not> contains (py ''?a=view'') (clean_filename ?k)"
    by (simp add: clean_filename_plain) (simp add: py_def)
  from 0 1 2 3 4 clean_filename_idempotent [OF 1 2] clean_filename_idempotent [OF 3 4]
  show ?thesis
    by simp
qed


lemma rmatch_star_close:
  "rmatch [Star p, GClose] b gs g t =
     Some (dropWhile p t, Some (take (length gs - length (dropWhile p t)) gs))"
  by (induction t arbitrary: b) auto

lemma take_group:
  "take (Suc (length t) - length (dropWhile p t)) (d # t) = d # takeWhile p t"
proof -
  have "length (dropWhile p t) \<le> length t"
    by (rule length_dropWhile_le)
  moreover have "length t - length (dropWhile p t) = length (takeWhile p t)"
    by (metis add_diff_cancel_right' length_append takeWhile_dropWhile_id)
  ultimately show ?thesis
    by (simp add: Suc_diff_le takeWhile_eq_take [symmetric])
qed

lemma marker_at_iff: "marker_at s \<longleftrightarrow> (\<exists>d t. s = [45, 32, d] @ t \<and> isdecimal d)"
  by (cases s rule: marker_at.cases) auto

lemma rmatch_episode_number:
  "rmatch episode_number_re b s g0 s =
     (if marker_at s
      then Some (dropWhile isdecimal (drop 2 s), Some (takeWhile isdecimal (drop 2 s)))
      else None)"
  by (cases s rule: marker_at.cases)
     (simp_all add: episode_number_re_def lit_def rmatch_star_close take_group)

lemma re_search_episode_number:
  "map_option snd (re_search episode_number_re b s) = map_option Some (first_marker s)"
proof (induction s arbitrary: b)
  case Nil
  then show ?case by (simp add: rmatch_episode_number)
next
  case (Cons c s)
  then show ?case by (simp add: rmatch_episode_number)
qed

lemma extract_episode_number_first_marker:
  "extract_episode_number name =
     (case first_marker name of None \<Rightarrow> Inr 0 | Some ds \<Rightarrow> py_int ds)"
proof -
  have "map_option snd (re_search episode_number_re True name) = map_option Some (first_marker name)"
    by (rule re_search_episode_number)
  then show ?thesis
    unfolding extract_episode_number_def
    by (cases "re_search episode_number_re True name"; cases "first_marker name") auto
qed

lemma first_marker_none:
  assumes "\<nexists>q d t. name = q @ [45, 32, d] @ t \<and> isdecimal d"
  shows "first_marker name = None"
  using assms
proof (induction name)
  case Nil
  then show ?case by simp
next
  case (Cons c s)
  have "\<not> marker_at (c # s)"
    using Cons.prems marker_at_iff [of "c # s"] by (metis append_Nil)
  moreover have "\<nexists>q d t. s = q @ [45, 32, d] @ t \<and> isdecimal d"
    using Cons.prems by (metis append_Cons)
  ultimately show ?case
    using Cons.IH by simp
qed

lemma marker_within_iff:
  "marker_within p s \<longleftrightarrow>
     (\<exists>q d t. s = q @ [45, 32, d] @ t \<and> isdecimal d \<and> length q < length p)"
proof (induction p arbitrary: s)
  case Nil
  then show ?case by simp
next
  case (Cons c p)
  show ?case
  proof
    assume "marker_within (c # p) s"
    then consider "marker_at s" | "marker_within p (tl s)" by auto
    then show "\<exists>q d t. s = q @ [45, 32, d] @ t \<and> isdecimal d \<and> length q < length (c # p)"
    proof cases
      case 1
      then obtain d t where "s = [] @ [45, 32, d] @ t" "isdecimal d"
        by (auto simp: marker_at_iff)
      then show ?thesis by (metis length_greater_0_conv list.size(3) list.distinct(1))
    next
      case 2
      then obtain q d t where q: "tl s = q @ [45, 32, d] @ t" "isdecimal d" "length q < length p"
        using Cons.IH by blast
      then obtain x where "s = x # tl s" by (cases s) auto
      with q have "s = (x # q) @ [45, 32, d] @ t \<and> isdecimal d \<and> length (x # q) < length (c # p)"
        by simp
      then show ?thesis by blast
    qed
  next
    assume "\<exists>q d t. s = q @ [45, 32, d] @ t \<and> isdecimal d \<and> length q < length (c # p)"
    then obtain q d t where q: "s = q @ [45, 32, d] @ t" "isdecimal d" "length q < length (c # p)"
      by blast
    show "marker_within (c # p) s"
    proof (cases q)
      case Nil
      with q have "marker_at s" by (auto simp: marker_at_iff)
      then show ?thesis by simp
    next
      case (Cons x q')
      with q have "tl s = q' @ [45, 32, d] @ t \<and> isdecimal d \<and> length q' < length p"
        by simp
      then have "marker_within p (tl s)"
        using Cons.IH by blast
      then show ?thesis by simp
    qed
  qed
qed

lemma first_marker_some:
  assumes "ds \<noteq> []" "list_all isdecimal ds" "r = [] \<or> \<not> isdecimal (hd r)"
    and "\<not> marker_within p (p @ [45, 32] @ ds @ r)"
  shows "first_marker (p @ [45, 32] @ ds @ r) = Some ds"
  using assms(4)
proof (induction p)
  case Nil
  obtain d ds' where ds: "ds = d # ds'"
    using assms(1) by (cases ds) auto
  have tw: "takeWhile isdecimal (ds @ r) = ds"
  proof (cases r)
    case Nil
    with assms(2) show ?thesis by (simp add: list_all_iff)
  next
    case (Cons x r')
    with assms(2,3) show ?thesis
      by (simp add: list_all_iff takeWhile_append2 takeWhile_tail)
  qed
  have "marker_at ([45, 32] @ ds @ r)"
    using assms(2) ds by simp
  then show ?case
    using tw by simp
next
  case (Cons c p)
  then have "\<not> marker_at (c # p @ [45, 32] @ ds @ r)" and "\<not> marker_within p (p @ [45, 32] @ ds @ r)"
    by simp_all
  with Cons.IH show ?case by simp
qed

text \<open>
  The episode pattern needs the space after the hyphen: in \<open>Show-05.mp4\<close> the hyphen is
  followed by digits at once, the pattern does not match and the episode number is 0.
\<close>

theorem extract_episode_number_counterexample:
  "extract_episode_number (py ''Show-05.mp4'') = Inr 0"
  by (simp add: extract_episode_number_first_marker)
     (simp add: py_def isdecimal_def decimal_value_def decimal_zeros_def)


text \<open>
  C5. For every display name, the episode ranker returns the integer value of the digits
  of the first occurrence of a hyphen, exactly one space character (U+0020) and a maximal
  run of one or more decimal digits; if no such occurrence exists anywhere in the name,
  it returns 0. The value is returned for runs of at most 4300 digits; on a longer run
  \<open>int()\<close> raises \<open>ValueError\<close>.
\<close>

theorem extract_episode_number_first_occurrence:
  "((\<nexists>q d t. name = q @ py ''- '' @ [d] @ t \<and> isdecimal d)
      \<longrightarrow> extract_episode_number name = Inr 0)
   \<and> (name = p @ py ''- '' @ ds @ r \<and> ds \<noteq> [] \<and> list_all isdecimal ds
        \<and> (r = [] \<or> \<not> isdecimal (hd r))
        \<and> (\<nexists>q d t. name = q @ py ''- '' @ [d] @ t \<and> isdecimal d \<and> length q < length p)
      \<longrightarrow> extract_episode_number name = py_int ds
          \<and> (length ds \<le> 4300 \<longrightarrow> extract_episode_number name = Inr (int (int_digits 0 ds)))
          \<and> (4300 < length ds \<longrightarrow> extract_episode_number name = Inl ValueError))"
proof -
  have sep: "py ''- '' = [45, 32]"
    by (simp add: py_def)
  have none: "extract_episode_number name = Inr 0"
    if "\<nexists>q d t. name = q @ py ''- '' @ [d] @ t \<and> isdecimal d"
  proof -
    from that have "\<nexists>q d t. name = q @ [45, 32, d] @ t \<and> isdecimal d"
      by (simp add: sep)
    then have "first_marker name = None"
      by (rule first_marker_none)
    then show ?thesis
      by (simp add: extract_episode_number_first_marker)
  qed
  have some: "extract_episode_number name = py_int ds"
    if name: "name = p @ py ''- '' @ ds @ r" and ds: "ds \<noteq> []" "list_all isdecimal ds"
      and r: "r = [] \<or> \<not> isdecimal (hd r)"
      and first: "\<nexists>q d t. name = q @ py ''- '' @ [d] @ t \<and> isdecimal d \<and> length q < length p"
  proof -
    from first have "\<not> marker_within p name"
      by (simp add: marker_within_iff sep)
    then have "first_marker (p @ [45, 32] @ ds @ r) = Some ds"
      using ds r name by (intro first_marker_some) (simp_all add: sep)
    then show ?thesis
      using name by (simp add: extract_episode_number_first_marker sep)
  qed
  show ?thesis
    using none some by (auto simp: py_int_def int_max_str_digits_def)
qed

theorem extract_episode_number_first_occurrence_witness:
  "py ''[ANi] Example Show - 03 [1080P].mp4''
      = py ''[ANi] Example Show '' @ py ''- '' @ py ''03'' @ py '' [1080P].mp4''
   \<and> list_all isdecimal (py ''03'') \<and> \<not> isdecimal (hd (py '' [1080P].mp4''))
   \<and> \<not> marker_within (py ''[ANi] Example Show '') (py ''[ANi] Example Show - 03 [1080P].mp4'')
   \<and> extract_episode_number (py ''[ANi] Example Show - 03 [1080P].mp4'') = Inr 3
   \<and> \<not> marker_within (py ''Show.mp4'') (py ''Show.mp4'')
   \<and> extract_episode_number (py ''Show.mp4'') = Inr 0
   \<and> extract_episode_number (py ''- '' @ replicate 4301 48) = Inl ValueError"
proof -
  let ?name = "py ''[ANi] Example Show - 03 [1080P].mp4''"
  let ?p = "py ''[ANi] Example Show ''"
  have 1: "?name = ?p @ py ''- '' @ py ''03'' @ py '' [1080P].mp4''"
    by (simp add: py_def)
  have 2: "list_all isdecimal (py ''03'')"
    by (simp add: py_def isdecimal_def decimal_value_def decimal_zeros_def)
  have 3: "\<not> isdecimal (hd (py '' [1080P].mp4''))"
    by (simp add: py_def isdecimal_def decimal_value_def decimal_zeros_def)
  have 4: "\<not> marker_within ?p ?name"
    by (simp add: py_def)
  then have 5: "\<nexists>q d t. ?name = q @ py ''- '' @ [d] @ t \<and> isdecimal d \<and> length q < length ?p"
    by (simp add: marker_within_iff py_def [of "''- ''"])
  have 6: "py ''03'' \<noteq> []"
    by (simp add: py_def)
  have 7: "length (py ''03'') \<le> 4300"
    by (simp add: py_def)
  have "extract_episode_number ?name = Inr (int (int_digits 0 (py ''03'')))"
    using extract_episode_number_first_occurrence [of ?name ?p "py ''03''" "py '' [1080P].mp4''"]
      1 2 3 5 6 7 by blast
  moreover have "int_digits 0 (py ''03'') = 3"
    by (simp add: py_def decimal_value_def decimal_zeros_def)
  ultimately have found: "extract_episode_number ?name = Inr 3"
    by simp
  let ?plain = "py ''Show.mp4''"
  have 8: "\<not> marker_within ?plain ?plain"
    by (simp add: py_def)
  have 9: "\<nexists>q d t. ?plain = q @ py ''- '' @ [d] @ t \<and> isdecimal d"
  proof
    assume "\<exists>q d t. ?plain = q @ py ''- '' @ [d] @ t \<and> isdecimal d"
    then obtain q d t where q: "?plain = q @ [45, 32, d] @ t" and d: "isdecimal d"
      by (auto simp: py_def [of "''- ''"])
    from q have "length ?plain = length (q @ [45, 32, d] @ t)"
      by (rule arg_cong)
    then have "length q < length ?plain"
      by simp
    with q d have "marker_within ?plain ?plain"
      unfolding marker_within_iff by blast
    with 8 show False ..
  qed
  have none: "extract_episode_number ?plain = Inr 0"
    using extract_episode_number_first_occurrence [of ?plain] 9 by blast
  let ?ds = "replicate 4301 (48 :: nat)"
  have zero: "isdecimal 48"
    by (simp add: isdecimal_def decimal_value_def decimal_zeros_def)
  have 10: "py ''- '' @ ?ds = [] @ py ''- '' @ ?ds @ []" "?ds \<noteq> []"
    "list_all isdecimal ?ds" "4300 < length ?ds"
    by (simp_all add: list_all_iff zero)
  have 11: "\<nexists>q d t. py ''- '' @ ?ds = q @ py ''- '' @ [d] @ t \<and> isdecimal d
      \<and> length q < length ([] :: pystr)"
    by simp
  have long: "extract_episode_number (py ''- '' @ ?ds) = Inl ValueError"
    using extract_episode_number_first_occurrence [of "py ''- '' @ ?ds" "[]" ?ds "[]"] 10 11
    by blast
  from 1 2 3 4 found 8 none long show ?thesis
    by blast
qed


lemma add_episode_all:
  assumes "\<forall>g\<in>set m. \<forall>e\<in>set (snd g). Q (fst g) e" and "Q k v"
  shows "\<forall>g\<in>set (add_episode m k v). \<forall>e\<in>set (snd g). Q (fst g) e"
  using assms
proof (induction m)
  case Nil
  then show ?case by simp
next
  case (Cons g m)
  obtain k' eps where g: "g = (k', eps)" by (cases g)
  show ?case
  proof (cases "k' = k")
    case True
    with Cons.prems g show ?thesis by auto
  next
    case False
    with Cons g show ?thesis by auto
  qed
qed

lemma group_series_all:
  assumes "\<forall>g\<in>set m. \<forall>e\<in>set (snd g). Q (fst g) e"
    and "\<forall>f\<in>set vs. Q (extract_anime_name (clean_filename f)) (clean_filename f)"
  shows "\<forall>g\<in>set (group_series m vs). \<forall>e\<in>set (snd g). Q (fst g) e"
  using assms
proof (induction vs arbitrary: m)
  case Nil
  then show ?case by simp
next
  case (Cons f vs)
  let ?c = "clean_filename f"
  have rest: "\<forall>f\<in>set vs. Q (extract_anime_name (clean_filename f)) (clean_filename f)"
    using Cons.prems(2) by simp
  show ?case
  proof (cases "?c \<noteq> [] \<and> extract_anime_name ?c \<noteq> []")
    case True
    then have step: "group_series m (f # vs) =
        group_series (add_episode m (extract_anime_name ?c) ?c) vs"
      by (simp add: Let_def)
    have "\<forall>g\<in>set (add_episode m (extract_anime_name ?c) ?c).
            \<forall>e\<in>set (snd g). Q (fst g) e"
      using Cons.prems by (intro add_episode_all) simp_all
    then show ?thesis
      unfolding step using rest by (rule Cons.IH)
  next
    case False
    then have step: "group_series m (f # vs) = group_series m vs"
      by (auto simp: Let_def)
    show ?thesis
      unfolding step using Cons.prems(1) rest by (rule Cons.IH)
  qed
qed








lemmas eval_defs = clean_filename_def Let_def py_def unquote_def tag_re_def lit_def
  none_of_def re_sub.simps split_last_def strip_def isspace_def endswith_def
  extract_anime_name_def ani_prefix_re_def episode_part_re_def quality_re_def dot_def
  isdecimal_def decimal_value_def decimal_zeros_def

lemma py_inject: "py a = py b \<longleftrightarrow> a = b"
proof -
  have "inj (of_char :: char \<Rightarrow> nat)"
    by (rule injI) simp
  then show ?thesis
    by (simp add: py_def inj_map_eq_map)
qed

lemma py_empty: "py a = [] \<longleftrightarrow> a = []"
  by (simp add: py_def)

lemma clean_A1: "clean_filename (py ''A - 1.mp4'') = py ''A - 1.mp4''"
  and clean_A2: "clean_filename (py ''A - 2.mp4'') = py ''A - 2.mp4''"
  and clean_B1: "clean_filename (py ''B - 1.mp4'') = py ''B - 1.mp4''"
  by (simp_all add: eval_defs)

lemma name_A1: "extract_anime_name (py ''A - 1.mp4'') = py ''A - 1.mp4''"
  and name_A2: "extract_anime_name (py ''A - 2.mp4'') = py ''A - 2.mp4''"
  and name_B1: "extract_anime_name (py ''B - 1.mp4'') = py ''B - 1.mp4''"
  by (simp_all add: eval_defs)

lemma number_A1: "extract_episode_number (py ''A - 1.mp4'') = Inr 1"
  and number_A2: "extract_episode_number (py ''A - 2.mp4'') = Inr 2"
  and number_B1: "extract_episode_number (py ''B - 1.mp4'') = Inr 1"
  by (simp_all add: extract_episode_number_first_marker)
     (simp_all add: py_def isdecimal_def decimal_value_def decimal_zeros_def py_int_def
        int_max_str_digits_def)

lemma group_series_scenario:
  "group_series [] [py ''A - 1.mp4'', py ''A - 2.mp4'', py ''B - 1.mp4''] =
     [(py ''A - 1.mp4'', [py ''A - 1.mp4'']), (py ''A - 2.mp4'', [py ''A - 2.mp4'']),
      (py ''B - 1.mp4'', [py ''B - 1.mp4''])]"
  by (simp add: Let_def clean_A1 clean_A2 clean_B1 name_A1 name_A2 name_B1 py_inject py_empty)

text \<open>
  C3. On the scenario's input the code does not build the groups of the claim. The
  series extractor deletes the episode part only when a bracketed tag follows it; the
  names \<open>A - 1.mp4\<close>, \<open>A - 2.mp4\<close> and \<open>B - 1.mp4\<close> have none, so the key of each is
  the whole name, episode number and extension included. The code builds three groups
  of one episode each, where the claim has the series \<open>A\<close> with 2 episodes ranked above
  the series \<open>B\<close> with 1; the three groups tie, and the output keeps the input order.
\<close>

theorem aggregate_scenario:
  "extract_anime_name (py ''A - 1.mp4'') = py ''A - 1.mp4''
   \<and> extract_anime_name (py ''A - 1.mp4'') \<noteq> py ''A''
   \<and> group_series [] [py ''A - 1.mp4'', py ''A - 2.mp4'', py ''B - 1.mp4''] =
     [(py ''A - 1.mp4'', [py ''A - 1.mp4'']), (py ''A - 2.mp4'', [py ''A - 2.mp4'']),
      (py ''B - 1.mp4'', [py ''B - 1.mp4''])]
   \<and> map fst (group_series [] [py ''A - 1.mp4'', py ''A - 2.mp4'', py ''B - 1.mp4''])
       \<noteq> [py ''A'', py ''B'']
   \<and> sorted_anime [py ''A - 1.mp4'', py ''A - 2.mp4'', py ''B - 1.mp4''] =
       group_series [] [py ''A - 1.mp4'', py ''A - 2.mp4'', py ''B - 1.mp4'']
   \<and> clean_and_get_top15 [py ''A - 1.mp4'', py ''A - 2.mp4'', py ''B - 1.mp4''] =
       Inr [py ''A - 1.mp4'', py ''A - 2.mp4'', py ''B - 1.mp4'']"
  unfolding clean_and_get_top15_def top15_anime_def sorted_anime_def group_series_scenario
  by (simp add: sorted_episodes_def episode_key_def number_A1 number_A2 number_B1 name_A1
      py_inject)


lemma first_marker_length: "first_marker s = Some ds \<Longrightarrow> length ds \<le> length s"
proof (induction s)
  case Nil
  then show ?case by simp
next
  case (Cons c s)
  show ?case
  proof (cases "marker_at (c # s)")
    case True
    with Cons.prems have "ds = takeWhile isdecimal (drop 2 (c # s))"
      by simp
    then have "length ds \<le> length (drop 2 (c # s))"
      by (simp only: length_takeWhile_le)
    then show ?thesis by simp
  next
    case False
    with Cons show ?thesis by simp
  qed
qed

lemma extract_episode_number_returns:
  assumes "length e \<le> 4300"
  shows "\<not> isl (extract_episode_number e)"
proof (cases "first_marker e")
  case None
  then show ?thesis by (simp add: extract_episode_number_first_marker)
next
  case (Some ds)
  then have "length ds \<le> length e"
    by (rule first_marker_length)
  with assms Some show ?thesis
    by (simp add: extract_episode_number_first_marker py_int_def int_max_str_digits_def)
qed

lemma sorted_episodes_returns:
  assumes "\<forall>e\<in>set eps. \<not> isl (extract_episode_number e)"
  shows "sorted_episodes eps = Inr (sort_key episode_key eps)"
proof -
  have "find (\<lambda>x. isl (extract_episode_number x)) eps = None"
    using assms by (simp add: find_None_iff)
  then show ?thesis
    by (simp add: sorted_episodes_def)
qed

lemma flatten_groups_returns:
  assumes "\<forall>g\<in>set gs. \<forall>e\<in>set (snd g). \<not> isl (extract_episode_number e)"
  shows "\<exists>out. flatten_groups gs = Inr out"
  using assms
proof (induction gs)
  case Nil
  then show ?case by simp
next
  case (Cons g gs)
  obtain k eps where g: "g = (k, eps)" by (cases g)
  from Cons.prems g have "sorted_episodes eps = Inr (sort_key episode_key eps)"
    by (intro sorted_episodes_returns) simp
  moreover from Cons obtain rest where "flatten_groups gs = Inr rest"
    by auto
  ultimately show ?case
    using g by simp
qed

text \<open>
  The aggregator returns a list whenever no cleaned name is longer than 4300 characters:
  then no episode number has more digits than \<open>int()\<close> converts.
\<close>

lemma clean_and_get_top15_returns:
  assumes "\<forall>f\<in>set video_files. length (clean_filename f) \<le> 4300"
  shows "\<exists>out. clean_and_get_top15 video_files = Inr out"
proof -
  have "\<forall>g\<in>set (group_series [] video_files). \<forall>e\<in>set (snd g). length e \<le> 4300"
    using assms by (intro group_series_all [where Q = "\<lambda>k e. length e \<le> 4300"]) simp_all
  moreover have "set (top15_anime video_files) \<subseteq> set (group_series [] video_files)"
    unfolding top15_anime_def sorted_anime_def using set_take_subset [of 15] by fastforce
  ultimately have "\<forall>g\<in>set (top15_anime video_files). \<forall>e\<in>set (snd g).
      \<not> isl (extract_episode_number e)"
    using extract_episode_number_returns by blast
  then show ?thesis
    unfolding clean_and_get_top15_def by (rule flatten_groups_returns)
qed








lemma f_retry_no_checked_exception:
  "fst (f_retry check backoff ret f mtries mdelay s) = Inl e \<Longrightarrow> \<not> check e"
proof (induction check backoff ret f mtries mdelay s rule: f_retry.induct)
  case (1 check backoff ret f mtries mdelay w trace)
  show ?case
  proof (cases "mtries > 0")
    case False
    with "1.prems" show ?thesis by simp
  next
    case True
    obtain r w' where fw: "f w = (r, w')" by (cases "f w")
    show ?thesis
    proof (cases r)
      case (Inr v)
      with True fw "1.prems" show ?thesis by simp
    next
      case (Inl x)
      show ?thesis
      proof (cases "check x")
        case False
        with True fw Inl "1.prems" show ?thesis by simp
      next
        case c: True
        have "fst (f_retry check backoff ret f (mtries - 1) (mdelay * backoff)
            (w', trace @ [Warn_retry mdelay, Sleep mdelay])) = Inl e"
          using "1.prems" True fw Inl c by simp
        with "1.IH" [OF True fw [symmetric] Inl c] show ?thesis .
      qed
    qed
  qed
qed

lemma f_retry_three_failures:
  assumes "f w = (Inl e1, w1)" "f w1 = (Inl e2, w2)" "f w2 = (Inl e3, w3)"
    and "check e1" "check e2" "check e3"
  shows "f_retry check 1 ret f 3 d (w, tr) =
    (Inr ret, w3, tr @ [Warn_retry d, Sleep d, Warn_retry d, Sleep d, Warn_retry d, Sleep d,
       Warn_gave_up])"
  using assms by simp


text \<open>
  C8. Neither \<open>get_latest_list\<close> nor \<open>get_current_season_list\<close> lets an exception (an
  instance of \<open>Exception\<close>) of its body reach the caller; and if each of the 3 attempts
  raises an exception, the wrapped call sleeps the fixed delay of 3 seconds after each of
  them and returns the empty list.
\<close>

theorem fetch_operations_never_raise:
  "(fst (get_latest_list body s) = Inl e \<longrightarrow> \<not> is_Exception e)
   \<and> (fst (get_current_season_list body s) = Inl e \<longrightarrow> \<not> is_Exception e)
   \<and> (body w = (Inl e1, w1) \<and> body w1 = (Inl e2, w2) \<and> body w2 = (Inl e3, w3)
        \<and> is_Exception e1 \<and> is_Exception e2 \<and> is_Exception e3 \<longrightarrow>
        get_latest_list body (w, tr) =
          (Inr [], w3, tr @ [Warn_retry 3, Sleep 3, Warn_retry 3, Sleep 3, Warn_retry 3, Sleep 3,
             Warn_gave_up])
        \<and> get_current_season_list body (w, tr) =
          (Inr [], w3, tr @ [Warn_retry 3, Sleep 3, Warn_retry 3, Sleep 3, Warn_retry 3, Sleep 3,
             Warn_gave_up]))"
  unfolding get_latest_list_def get_current_season_list_def retry_def
  using f_retry_no_checked_exception [of is_Exception 1 "[]" body 3 3 s e]
    f_retry_three_failures [of body w e1 w1 e2 w2 e3 w3 is_Exception "[]" 3 tr]
  by blast

theorem fetch_operations_never_raise_witness:
  "get_latest_list (\<lambda>w. (Inl (Exc ValueError), Suc w)) (0, []) =
     (Inr ([] :: nat list), 3, [Warn_retry 3, Sleep 3, Warn_retry 3, Sleep 3, Warn_retry 3, Sleep 3,
        Warn_gave_up])
   \<and> get_current_season_list (\<lambda>w. (Inl (Exc ValueError), Suc w)) (0, []) =
     (Inr ([] :: nat list), 3, [Warn_retry 3, Sleep 3, Warn_retry 3, Sleep 3, Warn_retry 3, Sleep 3,
        Warn_gave_up])
   \<and> fst (get_latest_list (\<lambda>w. (Inl KeyboardInterrupt :: exc + nat list, Suc w)) (0, []))
       = Inl KeyboardInterrupt
   \<and> fst (get_current_season_list (\<lambda>w. (Inl KeyboardInterrupt :: exc + nat list, Suc w)) (0, []))
       = Inl KeyboardInterrupt
   \<and> \<not> is_Exception KeyboardInterrupt"
proof -
  have 1: "fst (get_latest_list (\<lambda>w. (Inl KeyboardInterrupt :: exc + nat list, Suc w)) (0, []))
      = Inl KeyboardInterrupt"
    by (simp add: get_latest_list_def retry_def)
  have 2: "fst (get_current_season_list (\<lambda>w. (Inl KeyboardInterrupt :: exc + nat list, Suc w))
      (0, [])) = Inl KeyboardInterrupt"
    by (simp add: get_current_season_list_def retry_def)
  have 3: "\<not> is_Exception KeyboardInterrupt"
    using fetch_operations_never_raise
      [of "\<lambda>w. (Inl KeyboardInterrupt :: exc + nat list, Suc w)" "(0, [])" KeyboardInterrupt] 1
    by blast
  from 1 2 3 fetch_operations_never_raise
    [of "\<lambda>w. (Inl (Exc ValueError) :: exc + nat list, Suc w)" "(0, [])" "Exc ValueError" 0
        "Exc ValueError" 1 "Exc ValueError" 2 "Exc ValueError" 3 "[]"]
  show ?thesis
    by simp
qed


text \<open>With a non-empty link the URL is always built. Without one it is built when the
  season is set and the name can be encoded.\<close>

lemma src_url_season:
  "date self = Some d \<Longrightarrow> \<not> list_ex is_surrogate file_name \<Longrightarrow>
     \<exists>url. src_url self file_name None = Inr url"
  by (simp add: src_url_def quote_def utf8_encode_def)

lemma src_url_feed: "u \<noteq> [] \<Longrightarrow> src_url self file_name (Some u) = Inr (feed_src_url u)"
  by (simp add: src_url_def)

text \<open>
  The descriptor writer is write-once and idempotent once the URL is built and the
  target path is computed: if a file already exists at the target path, the call returns
  \<open>False\<close> and the file system is unchanged, whatever the URL; and if no file exists, a
  first call whose write succeeds returns \<open>True\<close> and creates the file with the URL as
  its content, and a second call with the same arguments returns \<open>False\<close> and leaves the
  content as the first call wrote it. In no case does a call change a file that exists
  at the target path.
\<close>

lemma touch_strm_file_write_once:
  "(src_url self file_name file_url = Inr url \<and> file_path self file_name \<in> dom fs \<longrightarrow>
      touch_strm_file self io fs file_name file_url = (Inr False, fs))
   \<and> (src_url self file_name file_url = Inr url \<and> file_path self file_name \<notin> dom fs \<longrightarrow>
      touch_strm_file self Written fs file_name file_url =
        (Inr True, fs(file_path self file_name \<mapsto> url))
      \<and> touch_strm_file self io (fs(file_path self file_name \<mapsto> url)) file_name file_url =
        (Inr False, fs(file_path self file_name \<mapsto> url)))
   \<and> (file_path self file_name \<in> dom fs \<longrightarrow>
      snd (touch_strm_file self io fs file_name file_url) = fs)"
  by (simp add: touch_strm_file_def split: sum.split)


lemma feed_src_url_plain:
  "feed_src_url (py ''https://h/ep01?d=mp4'') = py ''https://h/ep01.mp4?d=true''"
  by (simp add: feed_src_url_def is_url_format_valid_def convert_url_format_def
      py_replace_def endswith_def py_def)

lemma file_path_plain:
  "file_path \<lparr>storageplace = Some (py ''/media''), date = None\<rparr> (py ''Show - 01'') =
     py ''/media/Show - 01.mp4.strm''"
  by (simp add: file_path_def format_value_def eval_defs)

lemma touch_strm_file_write_once_example:
  "touch_strm_file \<lparr>storageplace = Some (py ''/media''), date = None\<rparr> Written Map.empty
      (py ''Show - 01'') (Some (py ''https://h/ep01?d=mp4'')) =
     (Inr True, [py ''/media/Show - 01.mp4.strm'' \<mapsto> py ''https://h/ep01.mp4?d=true''])
   \<and> touch_strm_file \<lparr>storageplace = Some (py ''/media''), date = None\<rparr> Written
      [py ''/media/Show - 01.mp4.strm'' \<mapsto> py ''https://h/ep01.mp4?d=true'']
      (py ''Show - 01'') (Some (py ''https://h/ep01?d=mp4'')) =
     (Inr False, [py ''/media/Show - 01.mp4.strm'' \<mapsto> py ''https://h/ep01.mp4?d=true''])
   \<and> touch_strm_file \<lparr>storageplace = Some (py ''/media''), date = None\<rparr> Written
      [py ''/media/Show - 01.mp4.strm'' \<mapsto> py ''old''] (py ''Show - 01'')
      (Some (py ''https://h/ep01?d=mp4'')) =
     (Inr False, [py ''/media/Show - 01.mp4.strm'' \<mapsto> py ''old''])
   \<and> snd (touch_strm_file \<lparr>storageplace = Some (py ''/media''), date = None\<rparr> Written
      [py ''/media/Show - 01.mp4.strm'' \<mapsto> py ''old''] (py ''Show - 01'') None) =
     [py ''/media/Show - 01.mp4.strm'' \<mapsto> py ''old'']"
proof -
  let ?self = "\<lparr>storageplace = Some (py ''/media''), date = None\<rparr>"
  let ?link = "Some (py ''https://h/ep01?d=mp4'')"
  let ?path = "py ''/media/Show - 01.mp4.strm''"
  let ?url = "py ''https://h/ep01.mp4?d=true''"
  have url: "src_url ?self (py ''Show - 01'') ?link = Inr ?url"
    by (simp add: src_url_feed py_empty feed_src_url_plain)
  have new: "file_path ?self (py ''Show - 01'') \<notin> dom (Map.empty :: filesystem)"
    by simp
  have old: "file_path ?self (py ''Show - 01'') \<in> dom [?path \<mapsto> py ''old'']"
    by (simp add: file_path_plain)
  from touch_strm_file_write_once [of ?self "py ''Show - 01''" ?link ?url Map.empty Written] url new
  have 1: "touch_strm_file ?self Written Map.empty (py ''Show - 01'') ?link
        = (Inr True, [?path \<mapsto> ?url])"
    and 2: "touch_strm_file ?self Written [?path \<mapsto> ?url] (py ''Show - 01'') ?link
        = (Inr False, [?path \<mapsto> ?url])"
    by (simp_all add: file_path_plain)
  from touch_strm_file_write_once
    [of ?self "py ''Show - 01''" ?link ?url "[?path \<mapsto> py ''old'']" Written] url old
  have 3: "touch_strm_file ?self Written [?path \<mapsto> py ''old''] (py ''Show - 01'') ?link
        = (Inr False, [?path \<mapsto> py ''old''])"
    by simp
  from touch_strm_file_write_once
    [of ?self "py ''Show - 01''" None _ "[?path \<mapsto> py ''old'']" Written] old
  have 4: "snd (touch_strm_file ?self Written [?path \<mapsto> py ''old''] (py ''Show - 01'') None)
        = [?path \<mapsto> py ''old'']"
    by blast
  from 1 2 3 4 show ?thesis
    by simp
qed

text \<open>
  C4. A call with a file at the target path does not always return \<open>False\<close>: the URL is
  built before the existence test, and without a link it reads \<open>self._date\<close>, which only
  \<open>__get_ani_season\<close> sets. For a feed item without a link (the adapter gives the empty
  string) in a plugin that never ran in full mode, the call raises \<open>AttributeError\<close>
  although the file \<open>/media/Show - 01.mp4.strm\<close> exists. The file is left as it is.
\<close>

theorem touch_strm_file_raises_before_check:
  "file_path \<lparr>storageplace = Some (py ''/media''), date = None\<rparr> (py ''Show - 01'')
     = py ''/media/Show - 01.mp4.strm''
   \<and> py ''/media/Show - 01.mp4.strm'' \<in> dom [py ''/media/Show - 01.mp4.strm'' \<mapsto> py ''old'']
   \<and> touch_strm_file \<lparr>storageplace = Some (py ''/media''), date = None\<rparr> Written
       [py ''/media/Show - 01.mp4.strm'' \<mapsto> py ''old''] (py ''Show - 01'') (Some [])
     = (Inl (Exc AttributeError), [py ''/media/Show - 01.mp4.strm'' \<mapsto> py ''old''])
   \<and> touch_strm_file \<lparr>storageplace = Some (py ''/media''), date = None\<rparr> Written
       [py ''/media/Show - 01.mp4.strm'' \<mapsto> py ''old''] (py ''Show - 01'') (Some [])
     \<noteq> (Inr False, [py ''/media/Show - 01.mp4.strm'' \<mapsto> py ''old''])"
proof -
  have "quote (py ''Show - 01'') (py ''.'') = Inr (py ''Show%20-%2001'')"
    by (simp add: quote_def utf8_encode_def is_surrogate_def utf8_encode_char_def quote_byte_def
        always_safe_def hexdigit_def py_def)
  then have "src_url \<lparr>storageplace = Some (py ''/media''), date = None\<rparr> (py ''Show - 01'')
      (Some []) = Inl (Exc AttributeError)"
    by (simp add: src_url_def)
  then show ?thesis
    by (simp add: touch_strm_file_def file_path_plain)
qed


lemma distinct_append_new: "distinct vs \<Longrightarrow> distinct (append_new vs x)"
  by (simp add: append_new_def)

lemma distinct_layer_links: "distinct vs \<Longrightarrow> distinct (layer_links vs hrefs)"
  by (induction vs hrefs rule: layer_links.induct) (simp_all add: distinct_append_new)

lemma distinct_layer_data: "distinct vs \<Longrightarrow> distinct (layer_data vs names)"
  by (induction vs names rule: layer_data.induct) (simp_all add: distinct_append_new)

lemma distinct_add_matches: "distinct vs \<Longrightarrow> distinct (add_matches vs ms)"
  by (induction vs ms rule: add_matches.induct) (simp_all add: distinct_append_new)

lemma distinct_layer_markup: "distinct vs \<Longrightarrow> distinct (layer_markup vs ps markup)"
  by (induction vs ps markup rule: layer_markup.induct) (simp_all add: distinct_add_matches)

lemma distinct_layer_text: "distinct vs \<Longrightarrow> distinct (layer_text vs t)"
proof -
  have "distinct vs \<Longrightarrow> distinct (foldl append_new vs ms)" for ms
    by (induction ms arbitrary: vs) (simp_all add: distinct_append_new)
  then show "distinct vs \<Longrightarrow> distinct (layer_text vs t)"
    by (simp add: layer_text_def)
qed

text \<open>
  Layers 2 to 5 append a name only when the list does not hold it: when the \<open>video\<close>
  layer yields no name twice, the merged list has no duplicate.
\<close>

lemma collect_video_files_distinct:
  assumes "collect_video_files p = Inr vs" and "distinct (layer_video [] (video_src p))"
  shows "distinct vs"
proof -
  obtain t where t: "body_text p = Some t"
    using assms(1) by (cases "body_text p") (simp_all add: collect_video_files_def Let_def)
  let ?v4 = "layer_markup (layer_data (layer_links (layer_video [] (video_src p)) (link_href p))
    (data_filename p)) patterns (content p)"
  have "vs = layer_text ?v4 t"
    using assms(1) t by (simp add: collect_video_files_def Let_def)
  moreover have "distinct ?v4"
    using assms(2) by (intro distinct_layer_markup distinct_layer_data distinct_layer_links)
  ultimately show ?thesis
    by (simp add: distinct_layer_text)
qed

lemmas layer_defs = collect_video_files_def Let_def patterns_def quoted_re_def keyed_re_def
  text_re_def layer_text_def append_new_def lit_def none_of_def one_of_def isspace_def
  re_findall.simps py_def endswith_def split_last_def

text \<open>
  C7. The merged list is not always free of duplicates: layer 1 appends the name of every
  \<open>video\<close> source without the membership test of the other layers. A page with two
  \<open>video\<close> elements of the same source \<open>/2025-7/E01.mp4\<close> yields \<open>E01.mp4\<close> twice.
\<close>

theorem collect_video_files_duplicate:
  "collect_video_files \<lparr>video_src = [Some (py ''/2025-7/E01.mp4''), Some (py ''/2025-7/E01.mp4'')],
      link_href = [], data_filename = [],
      content = py ''<video src='' @ [34] @ py ''/2025-7/E01.mp4'' @ [34] @ py ''></video>''
        @ py ''<video src='' @ [34] @ py ''/2025-7/E01.mp4'' @ [34] @ py ''></video>'',
      body_text = Some []\<rparr>
    = Inr [py ''E01.mp4'', py ''E01.mp4'', py ''/2025-7/E01.mp4'']
   \<and> \<not> distinct [py ''E01.mp4'', py ''E01.mp4'', py ''/2025-7/E01.mp4'']"
  by (simp add: layer_defs)


lemma rmatch_illegal:
  "rmatch illegal_re b gs g s =
     (case s of [] \<Rightarrow> None | c # t \<Rightarrow> if c \<in> set illegal_chars then Some (t, g) else None)"
  by (cases s) (simp_all add: illegal_re_def one_of_def)

lemma re_sub_illegal: "re_sub illegal_re b s = filter (\<lambda>c. c \<notin> set illegal_chars) s"
proof (induction s arbitrary: b)
  case Nil
  show ?case
    by (subst re_sub.simps) (simp add: rmatch_illegal)
next
  case (Cons c s)
  show ?case
    by (subst re_sub.simps) (simp add: rmatch_illegal Cons)
qed

lemma split_ws_Nil: "split_ws [] = []"
  by (subst split_ws.simps) simp

lemma split_ws_space: "isspace c \<Longrightarrow> split_ws (c # s) = split_ws s"
  by (subst split_ws.simps, subst (2) split_ws.simps) simp

lemma split_ws_word:
  assumes "w \<noteq> []" and "\<forall>c\<in>set w. \<not> isspace c" and "r = [] \<or> isspace (hd r)"
  shows "split_ws (w @ r) = w # split_ws r"
proof -
  obtain c w' where w: "w = c # w'"
    using assms(1) by (cases w) auto
  have tw: "takeWhile (\<lambda>x. \<not> isspace x) (w' @ r) = w'"
    using assms(2,3) w by (cases r) (simp_all add: takeWhile_append2 takeWhile_tail)
  have dw: "dropWhile (\<lambda>x. \<not> isspace x) (w' @ r) = r"
    using assms(2,3) w by (cases r) (simp_all add: dropWhile_append2 dropWhile_append3)
  have "dropWhile isspace (w @ r) = c # (w' @ r)"
    using assms(2) w by simp
  then show ?thesis
    by (subst split_ws.simps) (simp add: tw dw w)
qed

lemma split_ws_words:
  "w \<in> set (split_ws s) \<Longrightarrow> w \<noteq> [] \<and> (\<forall>c\<in>set w. \<not> isspace c) \<and> set w \<subseteq> set s"
proof (induction s arbitrary: w rule: split_ws.induct)
  case (1 s)
  show ?case
  proof (cases "dropWhile isspace s")
    case Nil
    with "1.prems" show ?thesis
      by (subst (asm) split_ws.simps) simp
  next
    case (Cons c r)
    have c: "\<not> isspace c"
      using hd_dropWhile [of isspace s] Cons by simp
    have sub: "set (c # r) \<subseteq> set s"
      using set_dropWhileD [of _ isspace s] Cons by auto
    from "1.prems" Cons consider "w = c # takeWhile (\<lambda>x. \<not> isspace x) r"
      | "w \<in> set (split_ws (dropWhile (\<lambda>x. \<not> isspace x) r))"
      by (subst (asm) split_ws.simps) auto
    then show ?thesis
    proof cases
      case 1
      with c sub show ?thesis
        by (auto dest: set_takeWhileD)
    next
      case 2
      with "1.IH" [OF Cons] have "w \<noteq> [] \<and> (\<forall>c\<in>set w. \<not> isspace c)
          \<and> set w \<subseteq> set (dropWhile (\<lambda>x. \<not> isspace x) r)"
        by blast
      with sub show ?thesis
        by (auto dest: set_dropWhileD)
    qed
  qed
qed

lemma set_join: "set (join sep ws) \<subseteq> set sep \<union> \<Union> (set ` set ws)"
  by (induction sep ws rule: join.induct) auto

lemma join_nonempty: "ws \<noteq> [] \<Longrightarrow> \<forall>w\<in>set ws. w \<noteq> [] \<Longrightarrow> join sep ws \<noteq> []"
  by (induction sep ws rule: join.induct) auto

lemma hd_join:
  "ws \<noteq> [] \<Longrightarrow> \<forall>w\<in>set ws. w \<noteq> [] \<Longrightarrow> hd (join sep ws) = hd (hd ws)"
  by (induction sep ws rule: join.induct) auto

lemma last_join:
  "ws \<noteq> [] \<Longrightarrow> \<forall>w\<in>set ws. w \<noteq> [] \<Longrightarrow> last (join sep ws) = last (last ws)"
proof (induction sep ws rule: join.induct)
  case (3 sep w v ws)
  then have "join sep (v # ws) \<noteq> []"
    by (intro join_nonempty) simp_all
  with 3 show ?case by simp
qed simp_all

lemma no_adjacent_space_word:
  assumes "\<forall>c\<in>set w. \<not> isspace c" and "no_adjacent_space r"
  shows "no_adjacent_space (w @ r)"
  using assms
proof (induction w)
  case Nil
  then show ?case by simp
next
  case (Cons c w)
  then have "no_adjacent_space (w @ r)" and "\<not> isspace c"
    by simp_all
  then show ?case
    by (cases "w @ r") simp_all
qed

lemma no_adjacent_space_join:
  assumes "\<forall>w\<in>set ws. w \<noteq> [] \<and> (\<forall>c\<in>set w. \<not> isspace c)"
  shows "no_adjacent_space (join [32] ws)"
  using assms
proof (induction "[32] :: pystr" ws rule: join.induct)
  case 1
  then show ?case by simp
next
  case (2 w)
  then show ?case
    using no_adjacent_space_word [of w "[]"] by simp
next
  case (3 w v ws)
  let ?rest = "join [32] (v # ws)"
  have ne: "?rest \<noteq> []"
    using "3.prems" by (intro join_nonempty) simp_all
  have "hd ?rest = hd v"
    using "3.prems" by (subst hd_join) simp_all
  moreover have "\<not> isspace (hd v)"
    using "3.prems" by (cases v) simp_all
  ultimately have "\<not> isspace (hd ?rest)"
    by simp
  moreover have "no_adjacent_space ?rest"
    using 3 by simp
  ultimately have "no_adjacent_space (32 # ?rest)"
    using ne by (cases ?rest) simp_all
  then have "no_adjacent_space (w @ 32 # ?rest)"
    using "3.prems" by (intro no_adjacent_space_word) simp_all
  then show ?case by simp
qed

lemma no_adjacent_space_take: "no_adjacent_space s \<Longrightarrow> no_adjacent_space (take n s)"
proof (induction s arbitrary: n)
  case Nil
  then show ?case by simp
next
  case (Cons c s)
  show ?case
  proof (cases n)
    case 0
    then show ?thesis by simp
  next
    case (Suc m)
    show ?thesis
    proof (cases s)
      case Nil
      with Suc show ?thesis by simp
    next
      case inner: (Cons d s')
      with Cons.prems have "no_adjacent_space s" and sep: "\<not> (isspace c \<and> isspace d)"
        by simp_all
      then have "no_adjacent_space (take m s)"
        by (intro Cons.IH)
      with sep inner Suc show ?thesis
        by (cases m) simp_all
    qed
  qed
qed

text \<open>
  What \<open>_sanitize_filename\<close> does guarantee: the result has none of the characters
  \<^verbatim>\<open>< > : " / \ | ? *\<close>, at most 200 characters, no leading white space and no two
  neighbouring white-space characters; and a result that was not truncated has no
  trailing white space.
\<close>

lemma sanitize_filename_properties:
  "set (sanitize_filename t) \<inter> set illegal_chars = {}"
  "length (sanitize_filename t) \<le> 200"
  "sanitize_filename t \<noteq> [] \<Longrightarrow> \<not> isspace (hd (sanitize_filename t))"
  "no_adjacent_space (sanitize_filename t)"
  "length (join (py '' '') (split_ws (re_sub illegal_re True t))) \<le> 200 \<Longrightarrow>
     sanitize_filename t \<noteq> [] \<Longrightarrow> \<not> isspace (last (sanitize_filename t))"
proof -
  define ws where "ws = split_ws (re_sub illegal_re True t)"
  define j where "j = join [32] ws"
  have sp: "py '' '' = [32]"
    by (simp add: py_def)
  have r: "sanitize_filename t = (if length j > 200 then take 200 j else j)"
    by (simp add: sanitize_filename_def Let_def ws_def j_def sp)
  have words: "\<forall>w\<in>set ws. w \<noteq> [] \<and> (\<forall>c\<in>set w. \<not> isspace c)
      \<and> set w \<subseteq> set (re_sub illegal_re True t)"
    unfolding ws_def using split_ws_words by blast
  have "set j \<subseteq> {32} \<union> set (re_sub illegal_re True t)"
    unfolding j_def using set_join [of "[32]" ws] words by auto
  moreover have "32 \<notin> set illegal_chars"
    by (simp add: illegal_chars_def)
  ultimately have legal: "set j \<inter> set illegal_chars = {}"
    by (auto simp: re_sub_illegal)
  have "set (take 200 j) \<subseteq> set j"
    by (rule set_take_subset)
  with legal show "set (sanitize_filename t) \<inter> set illegal_chars = {}"
    unfolding r by auto
  show "length (sanitize_filename t) \<le> 200"
    unfolding r by simp
  have nadj: "no_adjacent_space j"
    unfolding j_def using words by (intro no_adjacent_space_join) blast
  then show "no_adjacent_space (sanitize_filename t)"
    unfolding r by (simp add: no_adjacent_space_take)
  have ends: "\<not> isspace (hd j) \<and> \<not> isspace (last j)" if "j \<noteq> []"
  proof -
    from that have ne: "ws \<noteq> []"
      by (auto simp: j_def)
    have all_ne: "\<forall>w\<in>set ws. w \<noteq> []"
      using words by blast
    have "hd ws \<in> set ws" "last ws \<in> set ws"
      using ne by simp_all
    then have "\<not> isspace (hd (hd ws))" "\<not> isspace (last (last ws))"
      using words by (metis hd_in_set, metis last_in_set)
    then show ?thesis
      unfolding j_def by (simp add: hd_join [OF ne all_ne] last_join [OF ne all_ne])
  qed
  show "\<not> isspace (hd (sanitize_filename t))" if "sanitize_filename t \<noteq> []"
  proof -
    from that have "j \<noteq> []"
      unfolding r by (auto split: if_splits)
    with ends have "\<not> isspace (hd j)" by blast
    moreover have "hd (take 200 j) = hd j"
      by (cases j) simp_all
    ultimately show ?thesis
      unfolding r by simp
  qed
  show "\<not> isspace (last (sanitize_filename t))"
    if "length (join (py '' '') (split_ws (re_sub illegal_re True t))) \<le> 200"
      and "sanitize_filename t \<noteq> []"
  proof -
    from that(1) have "sanitize_filename t = j"
      unfolding r by (simp add: j_def ws_def sp)
    with that(2) ends show ?thesis by simp
  qed
qed

text \<open>
  C10. The sanitized name can end in white space: the name is cut to 200 characters after
  the white space was normalized, and the cut can fall right after a space. For the title
  of 199 letters \<open>a\<close>, a space and \<open>b\<close> the result is the 199 letters and the space.
\<close>

theorem sanitize_filename_trailing_space:
  "sanitize_filename (replicate 199 97 @ py '' b'') = replicate 199 97 @ py '' ''
   \<and> isspace (last (sanitize_filename (replicate 199 97 @ py '' b'')))"
proof -
  let ?w = "replicate 199 (97 :: nat)"
  have sp: "isspace 32" "\<not> isspace 97" "\<not> isspace 98"
    by (simp_all add: isspace_def)
  have "filter (\<lambda>c. c \<notin> set illegal_chars) (?w @ [32, 98]) = ?w @ [32, 98]"
    by (simp add: illegal_chars_def)
  then have 1: "re_sub illegal_re True (?w @ [32, 98]) = ?w @ [32, 98]"
    by (simp only: re_sub_illegal)
  have "split_ws (?w @ [32, 98]) = ?w # split_ws [32, 98]"
    by (rule split_ws_word) (simp_all add: sp)
  also have "split_ws [32, 98] = split_ws [98]"
    by (rule split_ws_space) (rule sp)
  also have "split_ws [98] = [[98]]"
    using split_ws_word [of "[98]" "[]"] by (simp add: sp split_ws_Nil)
  finally have 2: "split_ws (?w @ [32, 98]) = [?w, [98]]" .
  have 3: "join [32] [?w, [98]] = ?w @ [32, 98]"
    by simp
  have "sanitize_filename (?w @ [32, 98]) = ?w @ [32]"
    by (simp add: sanitize_filename_def Let_def 1 2 3 py_def)
  then show ?thesis
    by (simp add: py_def sp)
qed

text \<open>Without a code, \<open>create_strm_file\<close> names the file by the sanitized title.\<close>

lemma strm_filename_no_code:
  "strm_filename title None = sanitize_filename title"
  "strm_filename title (Some []) = sanitize_filename title"
  by (simp_all add: strm_filename_def)

end
